theory Spec2Isabelle
  imports Main "HOL-Library.Word" "HOL-Library.Monad_Syntax"
begin

unbundle bit_operations_syntax

section \<open>The ipset netlink encoder of src/ipset.c\<close>

text \<open>
  The file builds netfilter-netlink messages in a 256-byte stack buffer and hands them to
  the kernel with \<^verbatim>\<open>sendto\<close>. The embedding keeps the buffer as a list of bytes; every
  store into it is bounds-checked, and a store outside the array (undefined behaviour in
  C) is the value \<open>None\<close>. Multi-byte fields are stored in host byte order, which is a
  parameter of the model.
\<close>

subsection \<open>Constants\<close>

type_synonym byte = "8 word"

datatype endian = LittleEndian | BigEndian

text \<open>The macros of lines 40--70 and 85.\<close>

definition NFNL_SUBSYS_IPSET :: "16 word" where "NFNL_SUBSYS_IPSET = 6"
definition IPSET_ATTR_ETHER :: "16 word" where "IPSET_ATTR_ETHER = 17"
definition IPSET_ATTR_DATA :: "16 word" where "IPSET_ATTR_DATA = 7"
definition IPSET_ATTR_IP :: "16 word" where "IPSET_ATTR_IP = 1"
definition IPSET_ATTR_IPADDR_IPV4 :: "16 word" where "IPSET_ATTR_IPADDR_IPV4 = 1"
definition IPSET_ATTR_IPADDR_IPV6 :: "16 word" where "IPSET_ATTR_IPADDR_IPV6 = 2"
definition IPSET_ATTR_PROTOCOL :: "16 word" where "IPSET_ATTR_PROTOCOL = 1"
definition IPSET_ATTR_SETNAME :: "16 word" where "IPSET_ATTR_SETNAME = 2"
definition IPSET_CMD_ADD :: "16 word" where "IPSET_CMD_ADD = 9"
definition IPSET_CMD_DEL :: "16 word" where "IPSET_CMD_DEL = 10"
definition IPSET_CMD_FLUSH :: "16 word" where "IPSET_CMD_FLUSH = 4"
definition IPSET_MAXNAMELEN :: nat where "IPSET_MAXNAMELEN = 32"
definition IPSET_PROTOCOL :: byte where "IPSET_PROTOCOL = 6"
definition NFNETLINK_V0 :: byte where "NFNETLINK_V0 = 0"
definition NLA_F_NESTED :: "16 word" where "NLA_F_NESTED = push_bit 15 1"
definition NLA_F_NET_BYTEORDER :: "16 word" where "NLA_F_NET_BYTEORDER = push_bit 14 1"
definition INADDRSZ :: nat where "INADDRSZ = 4"
definition INETHSZ :: nat where "INETHSZ = 6"
definition BUFF_SZ :: nat where "BUFF_SZ = 256"

text \<open>
  Values the file takes from the system headers it includes (\<^verbatim>\<open>linux/netlink.h\<close>,
  \<^verbatim>\<open>sys/socket.h\<close>, \<^verbatim>\<open>errno.h\<close>); they are the Linux ABI values. \<^verbatim>\<open>struct nlmsghdr\<close> is
  \<^verbatim>\<open>{ __u32 nlmsg_len; __u16 nlmsg_type; __u16 nlmsg_flags; __u32 nlmsg_seq; __u32 nlmsg_pid; }\<close>,
  16 bytes, with \<^verbatim>\<open>nlmsg_len\<close> at offset 0, \<^verbatim>\<open>nlmsg_type\<close> at 4 and \<^verbatim>\<open>nlmsg_flags\<close> at 6.
\<close>

definition AF_INET :: int where "AF_INET = 2"
definition NLM_F_REQUEST :: "16 word" where "NLM_F_REQUEST = 1"
definition EINTR :: int where "EINTR = 4"
definition EAGAIN :: int where "EAGAIN = 11"
definition EWOULDBLOCK :: int where "EWOULDBLOCK = 11"
definition ENAMETOOLONG :: int where "ENAMETOOLONG = 36"
definition sizeof_nlmsghdr :: "32 word" where "sizeof_nlmsghdr = 16"

text \<open>
  \<^verbatim>\<open>struct my_nlattr\<close> (lines 72--75) is two \<^verbatim>\<open>__u16\<close>: \<^verbatim>\<open>nla_len\<close> at offset 0 and
  \<^verbatim>\<open>nla_type\<close> at offset 2. \<^verbatim>\<open>struct my_nfgenmsg\<close> (lines 77--81) is \<^verbatim>\<open>nfgen_family\<close>
  at offset 0, \<^verbatim>\<open>version\<close> at 1 and \<^verbatim>\<open>res_id\<close> at 2.
\<close>

definition sizeof_nlattr :: "32 word" where "sizeof_nlattr = 4"
definition sizeof_nfgenmsg :: "32 word" where "sizeof_nfgenmsg = 4"

text \<open>\<^verbatim>\<open>#define NL_ALIGN(len) (((len)+3) & ~(3))\<close>\<close>

definition NL_ALIGN :: "32 word \<Rightarrow> 32 word" where
  "NL_ALIGN len = (len + 3) AND NOT 3"

subsection \<open>Bytes of multi-byte fields\<close>

definition u16_bytes :: "endian \<Rightarrow> 16 word \<Rightarrow> byte list" where
  "u16_bytes e v = (case e of
       LittleEndian \<Rightarrow> [ucast v, ucast (drop_bit 8 v)]
     | BigEndian \<Rightarrow> [ucast (drop_bit 8 v), ucast v])"

definition u32_bytes :: "endian \<Rightarrow> 32 word \<Rightarrow> byte list" where
  "u32_bytes e v = (case e of
       LittleEndian \<Rightarrow>
         [ucast v, ucast (drop_bit 8 v), ucast (drop_bit 16 v), ucast (drop_bit 24 v)]
     | BigEndian \<Rightarrow>
         [ucast (drop_bit 24 v), ucast (drop_bit 16 v), ucast (drop_bit 8 v), ucast v])"

definition bytes_u16 :: "endian \<Rightarrow> byte \<Rightarrow> byte \<Rightarrow> 16 word" where
  "bytes_u16 e b0 b1 = (case e of
       LittleEndian \<Rightarrow> ucast b0 OR push_bit 8 (ucast b1)
     | BigEndian \<Rightarrow> ucast b1 OR push_bit 8 (ucast b0))"

definition bytes_u32 :: "endian \<Rightarrow> byte \<Rightarrow> byte \<Rightarrow> byte \<Rightarrow> byte \<Rightarrow> 32 word" where
  "bytes_u32 e b0 b1 b2 b3 = (case e of
       LittleEndian \<Rightarrow>
         ucast b0 OR push_bit 8 (ucast b1) OR push_bit 16 (ucast b2) OR push_bit 24 (ucast b3)
     | BigEndian \<Rightarrow>
         ucast b3 OR push_bit 8 (ucast b2) OR push_bit 16 (ucast b1) OR push_bit 24 (ucast b0))"

text \<open>\<^verbatim>\<open>htons\<close>: the 16-bit value whose stored bytes are big-endian.\<close>

definition htons :: "endian \<Rightarrow> 16 word \<Rightarrow> 16 word" where
  "htons e v = (case e of
       BigEndian \<Rightarrow> v
     | LittleEndian \<Rightarrow> push_bit 8 v OR drop_bit 8 v)"

subsection \<open>The buffer\<close>

text \<open>
  A store of the bytes \<open>bs\<close> at offset \<open>off\<close> of the array. Outside the array the C
  program overruns its stack buffer; the model stops with \<open>None\<close>.
\<close>

definition splice :: "nat \<Rightarrow> byte list \<Rightarrow> byte list \<Rightarrow> byte list" where
  "splice off bs buf = take off buf @ bs @ drop (off + length bs) buf"

definition write_bytes :: "nat \<Rightarrow> byte list \<Rightarrow> byte list \<Rightarrow> byte list option" where
  "write_bytes off bs buf =
     (if off + length bs \<le> length buf then Some (splice off bs buf) else None)"

definition put_u16 :: "endian \<Rightarrow> nat \<Rightarrow> 16 word \<Rightarrow> byte list \<Rightarrow> byte list option" where
  "put_u16 e off v buf = write_bytes off (u16_bytes e v) buf"

definition put_u32 :: "endian \<Rightarrow> nat \<Rightarrow> 32 word \<Rightarrow> byte list \<Rightarrow> byte list option" where
  "put_u32 e off v buf = write_bytes off (u32_bytes e v) buf"

definition get_u16 :: "endian \<Rightarrow> nat \<Rightarrow> byte list \<Rightarrow> 16 word" where
  "get_u16 e off buf = bytes_u16 e (buf ! off) (buf ! (off + 1))"

definition get_u32 :: "endian \<Rightarrow> nat \<Rightarrow> byte list \<Rightarrow> 32 word" where
  "get_u32 e off buf =
     bytes_u32 e (buf ! off) (buf ! (off + 1)) (buf ! (off + 2)) (buf ! (off + 3))"

text \<open>
  \<^verbatim>\<open>nlh = (struct nlmsghdr *)buffer\<close>: the logical length \<^verbatim>\<open>nlh->nlmsg_len\<close> is the
  32-bit field in the first four bytes of the buffer itself.
\<close>

definition get_nlmsg_len :: "endian \<Rightarrow> byte list \<Rightarrow> 32 word" where
  "get_nlmsg_len e buf = get_u32 e 0 buf"

definition set_nlmsg_len :: "endian \<Rightarrow> 32 word \<Rightarrow> byte list \<Rightarrow> byte list option" where
  "set_nlmsg_len e v buf = put_u32 e 0 v buf"

text \<open>
  A C string argument is the bytes found at the pointer; \<^verbatim>\<open>strlen\<close> counts up to the first
  zero byte, and the bytes after it are never read. The terminator itself is implicit at
  the end of the list.
\<close>

definition c_str :: "byte list \<Rightarrow> byte list" where
  "c_str s = takeWhile (\<lambda>c. c \<noteq> 0) s"

definition strlen :: "byte list \<Rightarrow> nat" where
  "strlen s = length (c_str s)"

subsection \<open>add_attr (lines 119--127)\<close>

text \<open>
  \<open>data\<close> is the \<open>len\<close> bytes at the pointer \<^verbatim>\<open>data\<close>. \<^verbatim>\<open>payload_len\<close> is a \<^verbatim>\<open>uint16_t\<close>:
  the sum is truncated to 16 bits. \<^verbatim>\<open>NL_ALIGN(payload_len)\<close> is computed on the promoted
  value, which cannot overflow, and added to the 32-bit \<^verbatim>\<open>nlmsg_len\<close>.
\<close>

definition add_attr :: "endian \<Rightarrow> 16 word \<Rightarrow> byte list \<Rightarrow> byte list \<Rightarrow> byte list option" where
  "add_attr e type data buf =
     (let attr = unat (NL_ALIGN (get_nlmsg_len e buf));
          payload_len = (word_of_nat (unat (NL_ALIGN sizeof_nlattr) + length data) :: 16 word)
      in do {
        buf \<leftarrow> put_u16 e (attr + 2) type buf;
        buf \<leftarrow> put_u16 e attr payload_len buf;
        buf \<leftarrow> write_bytes (attr + unat (NL_ALIGN sizeof_nlattr)) data buf;
        set_nlmsg_len e (get_nlmsg_len e buf + NL_ALIGN (ucast payload_len)) buf
      })"

subsection \<open>The message builders\<close>

text \<open>
  The three builders start with the same statements (lines 153--166, 199--212 and
  234--247): the netlink header, the \<^verbatim>\<open>my_nfgenmsg\<close> sub-header, the protocol attribute
  and the set-name attribute. They differ in the value of \<^verbatim>\<open>nlmsg_type\<close> and of
  \<^verbatim>\<open>nfgen_family\<close>, the parameters here. \<^verbatim>\<open>nfgen_family\<close> is a \<^verbatim>\<open>__u8\<close>: the \<^verbatim>\<open>int\<close> is
  truncated.
\<close>

definition msg_header :: "endian \<Rightarrow> 16 word \<Rightarrow> int \<Rightarrow> byte list \<Rightarrow> byte list option" where
  "msg_header e nlmsg_type family setname = do {
     buf \<leftarrow> Some (replicate BUFF_SZ 0);
     buf \<leftarrow> set_nlmsg_len e (NL_ALIGN sizeof_nlmsghdr) buf;
     buf \<leftarrow> put_u16 e 4 nlmsg_type buf;
     buf \<leftarrow> put_u16 e 6 NLM_F_REQUEST buf;
     let nfg = unat (get_nlmsg_len e buf);
     buf \<leftarrow> set_nlmsg_len e (get_nlmsg_len e buf + NL_ALIGN sizeof_nfgenmsg) buf;
     buf \<leftarrow> write_bytes nfg [word_of_int family] buf;
     buf \<leftarrow> write_bytes (nfg + 1) [NFNETLINK_V0] buf;
     buf \<leftarrow> put_u16 e (nfg + 2) (htons e 0) buf;
     buf \<leftarrow> add_attr e IPSET_ATTR_PROTOCOL [IPSET_PROTOCOL] buf;
     add_attr e IPSET_ATTR_SETNAME (c_str setname @ [0]) buf
   }"

text \<open>
  \<^verbatim>\<open>struct in_addr\<close> holds the 32-bit \<^verbatim>\<open>s_addr\<close>; \<^verbatim>\<open>memcpy\<close> copies its four bytes as they
  lie in memory. \<^verbatim>\<open>struct ether_addr\<close> holds the six bytes \<^verbatim>\<open>ether_addr_octet\<close>.
\<close>

type_synonym in_addr = "32 word"

datatype ether_addr = Ether_addr byte byte byte byte byte byte

fun ether_addr_octet :: "ether_addr \<Rightarrow> byte list" where
  "ether_addr_octet (Ether_addr a b c d f g) = [a, b, c, d, f, g]"

text \<open>
  Lines 167--172: the two nested attribute headers are reserved, their types written,
  and their start offsets kept in \<^verbatim>\<open>nested[0]\<close> and \<^verbatim>\<open>nested[1]\<close>.
\<close>

definition open_nested :: "endian \<Rightarrow> 16 word \<Rightarrow> byte list \<Rightarrow> (byte list \<times> nat) option" where
  "open_nested e type buf =
     (let nested = unat (NL_ALIGN (get_nlmsg_len e buf)) in do {
        buf \<leftarrow> set_nlmsg_len e (get_nlmsg_len e buf + NL_ALIGN sizeof_nlattr) buf;
        buf \<leftarrow> put_u16 e (nested + 2) (NLA_F_NESTED OR type) buf;
        Some (buf, nested)
      })"

text \<open>
  Lines 176 and 177:
  \<^verbatim>\<open>nested[k]->nla_len = (void *)buffer + NL_ALIGN(nlh->nlmsg_len) - (void *)nested[k]\<close>.
  The pointer difference is signed and is truncated to the 16-bit field.
\<close>

definition close_nested :: "endian \<Rightarrow> nat \<Rightarrow> byte list \<Rightarrow> byte list option" where
  "close_nested e nested buf =
     put_u16 e nested
       (word_of_int (int (unat (NL_ALIGN (get_nlmsg_len e buf))) - int nested)) buf"

text \<open>Lines 153--175 of \<^verbatim>\<open>new_add_to_ipset\<close>: everything before the two backpatches.\<close>

definition new_add_to_ipset_open ::
  "endian \<Rightarrow> byte list \<Rightarrow> in_addr \<Rightarrow> int \<Rightarrow> int \<Rightarrow> (byte list \<times> nat \<times> nat) option" where
  "new_add_to_ipset_open e setname ipaddr af remove = do {
     buf \<leftarrow> msg_header e
       ((if remove \<noteq> 0 then IPSET_CMD_DEL else IPSET_CMD_ADD) OR push_bit 8 NFNL_SUBSYS_IPSET)
       af setname;
     (buf, nested0) \<leftarrow> open_nested e IPSET_ATTR_DATA buf;
     (buf, nested1) \<leftarrow> open_nested e IPSET_ATTR_IP buf;
     buf \<leftarrow> add_attr e
       ((if af = AF_INET then IPSET_ATTR_IPADDR_IPV4 else IPSET_ATTR_IPADDR_IPV6)
          OR NLA_F_NET_BYTEORDER)
       (take INADDRSZ (u32_bytes e ipaddr)) buf;
     Some (buf, nested0, nested1)
   }"

text \<open>Lines 153--177: the buffer as it stands before the send loop.\<close>

definition new_add_to_ipset_buffer ::
  "endian \<Rightarrow> byte list \<Rightarrow> in_addr \<Rightarrow> int \<Rightarrow> int \<Rightarrow> byte list option" where
  "new_add_to_ipset_buffer e setname ipaddr af remove = do {
     (buf, nested0, nested1) \<leftarrow> new_add_to_ipset_open e setname ipaddr af remove;
     buf \<leftarrow> close_nested e nested1 buf;
     close_nested e nested0 buf
   }"

text \<open>
  Lines 199--213 of \<^verbatim>\<open>new_add_mac_to_ipset\<close>. The parameter \<^verbatim>\<open>timeout\<close> is not read by
  the function body.
\<close>

definition new_add_mac_to_ipset_buffer ::
  "endian \<Rightarrow> byte list \<Rightarrow> ether_addr \<Rightarrow> int \<Rightarrow> int \<Rightarrow> byte list option" where
  "new_add_mac_to_ipset_buffer e setname eth_addr af timeout = do {
     buf \<leftarrow> msg_header e (IPSET_CMD_ADD OR push_bit 8 NFNL_SUBSYS_IPSET) af setname;
     add_attr e IPSET_ATTR_ETHER (take INETHSZ (ether_addr_octet eth_addr)) buf
   }"

text \<open>Lines 234--247 of \<^verbatim>\<open>flush_ipset\<close>.\<close>

definition flush_ipset_buffer :: "endian \<Rightarrow> byte list \<Rightarrow> byte list option" where
  "flush_ipset_buffer e setname =
     msg_header e (IPSET_CMD_FLUSH OR push_bit 8 NFNL_SUBSYS_IPSET) AF_INET setname"

subsection \<open>The socket, errno and the retry counter\<close>

text \<open>
  The state outside the buffer: the \<^verbatim>\<open>static int retries\<close> of \<^verbatim>\<open>retry_send\<close>, \<^verbatim>\<open>errno\<close>,
  and the datagrams handed to \<^verbatim>\<open>sendto\<close> on \<^verbatim>\<open>ipset_sock\<close> so far, one entry for each
  call. \<^verbatim>\<open>retries\<close> is a C \<^verbatim>\<open>int\<close>; it is modelled unbounded, since it is reset before it
  can pass 1001.
\<close>

record world =
  retries :: int
  errno :: int
  socket_writes :: "byte list list"

text \<open>
  What one \<^verbatim>\<open>sendto\<close> call does is decided by the kernel: it returns the number of bytes
  accepted, or \<open>-1\<close> with \<^verbatim>\<open>errno\<close> set. So is what a \<^verbatim>\<open>nanosleep\<close> call does: it sleeps
  its time, or a signal interrupts it and it returns with \<^verbatim>\<open>errno\<close> set to \<^verbatim>\<open>EINTR\<close>. The
  kernel gives the result of a \<^verbatim>\<open>sendto\<close> call from the number of calls made before it, and
  the result of a \<^verbatim>\<open>nanosleep\<close> call from the number of \<^verbatim>\<open>sendto\<close> calls made before it
  (\<^verbatim>\<open>retry_send\<close> sleeps at most once after each \<^verbatim>\<open>sendto\<close>).
\<close>

datatype send_result = Sent nat | SendFailed int

datatype sleep_result = Slept | Interrupted

record kernel =
  sendto_result :: "nat \<Rightarrow> send_result"
  nanosleep_result :: "nat \<Rightarrow> sleep_result"

definition sendto :: "kernel \<Rightarrow> byte list \<Rightarrow> world \<Rightarrow> int \<times> world" where
  "sendto k msg w =
     (case sendto_result k (length (socket_writes w)) of
        Sent n \<Rightarrow> (int n, w\<lparr>socket_writes := socket_writes w @ [msg]\<rparr>)
      | SendFailed en \<Rightarrow> (- 1, w\<lparr>errno := en, socket_writes := socket_writes w @ [msg]\<rparr>))"

text \<open>
  \<^verbatim>\<open>nanosleep(&waiter, NULL)\<close> (line 105): its return value is not used, its effect on
  \<^verbatim>\<open>errno\<close> is read by the lines after it.
\<close>

definition nanosleep :: "kernel \<Rightarrow> world \<Rightarrow> world" where
  "nanosleep k w =
     (case nanosleep_result k (length (socket_writes w)) of
        Slept \<Rightarrow> w
      | Interrupted \<Rightarrow> w\<lparr>errno := EINTR\<rparr>)"

text \<open>
  \<^verbatim>\<open>retry_send\<close> (lines 91--116). Lines 110--115 are reached from two places and are a
  function of their own here.
\<close>

definition retry_send_tail :: "world \<Rightarrow> int \<times> world" where
  "retry_send_tail w =
     (let w = w\<lparr>retries := 0\<rparr>
      in if errno w = EINTR then (1, w) else (0, w))"

definition retry_send :: "kernel \<Rightarrow> int \<Rightarrow> world \<Rightarrow> int \<times> world" where
  "retry_send k rc w =
     (if rc \<noteq> - 1 then (0, w\<lparr>retries := 0, errno := 0\<rparr>)
      else if errno w = EAGAIN \<or> errno w = EWOULDBLOCK then
        (let w = nanosleep k w;
             w' = w\<lparr>retries := retries w + 1\<rparr>
         in if retries w < 1000 then (1, w') else retry_send_tail w')
      else retry_send_tail w)"

text \<open>
  \<^verbatim>\<open>while (retry_send(sendto(ipset_sock, buffer, nlh->nlmsg_len, ...))) ;\<close> (lines 179,
  215 and 249). The loop has no bound of its own: where it never ends, the value is
  \<open>None\<close>.
\<close>

partial_function (option) send_loop :: "kernel \<Rightarrow> byte list \<Rightarrow> world \<Rightarrow> world option" where
  "send_loop k msg w =
     (case sendto k msg w of (rc, w1) \<Rightarrow>
        (case retry_send k rc w1 of (again, w2) \<Rightarrow>
           if again \<noteq> 0 then send_loop k msg w2 else Some w2))"

declare send_loop.simps [code]

text \<open>
  How a call of one of the functions ends: it returns a value and leaves a state, or it
  never returns, or it runs into undefined behaviour.
\<close>

datatype fault = NullDereference | BufferOverrun

datatype outcome = Returns int world | Faults fault | Diverges

text \<open>
  The calls of \<^verbatim>\<open>debug\<close> (lines 218, 252 and 261) write to the log, which the
  specification calls ``not behavior-affecting''; they are left out.
\<close>

text \<open>
  The send loop on a finished buffer, and \<^verbatim>\<open>return errno == 0 ? 0 : -1\<close>. \<^verbatim>\<open>sendto\<close> reads
  \<^verbatim>\<open>nlh->nlmsg_len\<close> bytes of the buffer; neither changes inside the loop.
\<close>

definition send_buffer :: "endian \<Rightarrow> kernel \<Rightarrow> byte list option \<Rightarrow> world \<Rightarrow> outcome" where
  "send_buffer e k built w =
     (case built of
        None \<Rightarrow> Faults BufferOverrun
      | Some buf \<Rightarrow>
          if length buf < unat (get_nlmsg_len e buf) then Faults BufferOverrun
          else (case send_loop k (take (unat (get_nlmsg_len e buf)) buf) w of
                  None \<Rightarrow> Diverges
                | Some w' \<Rightarrow> Returns (if errno w' = 0 then 0 else - 1) w'))"

subsection \<open>The entry points\<close>

text \<open>
  \<open>setname\<close> is \<open>None\<close> for a null pointer. \<^verbatim>\<open>new_add_to_ipset\<close> and
  \<^verbatim>\<open>new_add_mac_to_ipset\<close> call \<^verbatim>\<open>strlen(setname)\<close> at once (lines 147 and 193);
  \<^verbatim>\<open>flush_ipset\<close> tests the pointer first (line 229).
\<close>

definition new_add_to_ipset ::
  "endian \<Rightarrow> kernel \<Rightarrow> byte list option \<Rightarrow> in_addr \<Rightarrow> int \<Rightarrow> int \<Rightarrow> world \<Rightarrow> outcome" where
  "new_add_to_ipset e k setname ipaddr af remove w =
     (case setname of
        None \<Rightarrow> Faults NullDereference
      | Some name \<Rightarrow>
          if strlen name \<ge> IPSET_MAXNAMELEN then Returns (- 1) (w\<lparr>errno := ENAMETOOLONG\<rparr>)
          else send_buffer e k (new_add_to_ipset_buffer e name ipaddr af remove) w)"

definition new_add_mac_to_ipset ::
  "endian \<Rightarrow> kernel \<Rightarrow> byte list option \<Rightarrow> ether_addr \<Rightarrow> int \<Rightarrow> int \<Rightarrow> world \<Rightarrow> outcome" where
  "new_add_mac_to_ipset e k setname eth_addr af timeout w =
     (case setname of
        None \<Rightarrow> Faults NullDereference
      | Some name \<Rightarrow>
          if strlen name \<ge> IPSET_MAXNAMELEN then Returns (- 1) (w\<lparr>errno := ENAMETOOLONG\<rparr>)
          else send_buffer e k (new_add_mac_to_ipset_buffer e name eth_addr af timeout) w)"

definition flush_ipset :: "endian \<Rightarrow> kernel \<Rightarrow> byte list option \<Rightarrow> world \<Rightarrow> outcome" where
  "flush_ipset e k setname w =
     (case setname of
        None \<Rightarrow> Returns (- 1) (w\<lparr>errno := ENAMETOOLONG\<rparr>)
      | Some name \<Rightarrow>
          if strlen name \<ge> IPSET_MAXNAMELEN then Returns (- 1) (w\<lparr>errno := ENAMETOOLONG\<rparr>)
          else send_buffer e k (flush_ipset_buffer e name) w)"

text \<open>
  \<^verbatim>\<open>add_to_ipset\<close> (lines 257--277). The validators \<^verbatim>\<open>is_valid_ip\<close> and \<^verbatim>\<open>is_valid_mac\<close>
  (util.c, not part of the sources at hand) and the parsers \<^verbatim>\<open>inet_aton\<close> and
  \<^verbatim>\<open>ether_aton\<close> of the C library are parameters: any four functions of the value text.
  A parser that fails (\<^verbatim>\<open>inet_aton\<close> returning 0, \<^verbatim>\<open>ether_aton\<close> returning a null pointer)
  gives \<open>None\<close>.
\<close>

record parsers =
  is_valid_ip :: "string \<Rightarrow> bool"
  inet_aton :: "string \<Rightarrow> in_addr option"
  is_valid_mac :: "string \<Rightarrow> bool"
  ether_aton :: "string \<Rightarrow> ether_addr option"

definition add_to_ipset ::
  "parsers \<Rightarrow> endian \<Rightarrow> kernel \<Rightarrow> byte list option \<Rightarrow> string \<Rightarrow> int \<Rightarrow> world \<Rightarrow> outcome" where
  "add_to_ipset p e k setname val flag w =
     (let af = AF_INET in
      if is_valid_ip p val then
        (case inet_aton p val of
           None \<Rightarrow> Returns (- 1) w
         | Some addr \<Rightarrow> new_add_to_ipset e k setname addr af flag w)
      else if is_valid_mac p val then
        (case ether_aton p val of
           None \<Rightarrow> Returns (- 1) w
         | Some addr \<Rightarrow> new_add_mac_to_ipset e k setname addr af flag w)
      else Returns (- 1) w)"

subsection \<open>Layout of a built message and sample inputs\<close>

text \<open>
  The set-name attribute starts at offset 28. Its aligned size, header and terminator
  included, is \<open>name_span\<close>; whatever a builder appends after it starts at
  \<open>28 + name_span\<close>.
\<close>

definition name_span :: "byte list \<Rightarrow> nat" where
  "name_span setname = 4 * ((strlen setname + 8) div 4)"

text \<open>
  The state after one \<^verbatim>\<open>sendto\<close> that failed with \<^verbatim>\<open>EAGAIN\<close> while retries were left:
  the datagram was handed to the socket, the sleep has done what the kernel made it do,
  and one more retry is counted.
\<close>

definition would_block_step :: "kernel \<Rightarrow> byte list \<Rightarrow> world \<Rightarrow> world" where
  "would_block_step k msg w =
     (nanosleep k (w\<lparr>errno := EAGAIN, socket_writes := socket_writes w @ [msg]\<rparr>))
       \<lparr>retries := retries w + 1\<rparr>"

text \<open>The number of \<^verbatim>\<open>sendto\<close> calls made between two states.\<close>

definition send_attempts :: "world \<Rightarrow> world \<Rightarrow> nat" where
  "send_attempts w w' = length (socket_writes w') - length (socket_writes w)"

text \<open>
  The state at program start, a kernel that accepts every datagram, one whose queue is
  always full, one whose queue is always full and that interrupts the sleep after the
  1001st \<^verbatim>\<open>sendto\<close> (and no other), the set name \<^verbatim>\<open>"blocklist"\<close> and a name of 45 characters, and an attribute
  buffer holding nothing but the logical length 20.
\<close>

definition world0 :: world where
  "world0 = \<lparr>retries = 0, errno = 0, socket_writes = []\<rparr>"

definition kernel_accepts :: kernel where
  "kernel_accepts = \<lparr>sendto_result = (\<lambda>i. Sent 0), nanosleep_result = (\<lambda>i. Slept)\<rparr>"


definition kernel_would_block_signal :: kernel where
  "kernel_would_block_signal =
     \<lparr>sendto_result = (\<lambda>i. SendFailed EAGAIN),
      nanosleep_result = (\<lambda>i. if i = 1001 then Interrupted else Slept)\<rparr>"

definition blocklist :: "byte list" where
  "blocklist = [0x62, 0x6c, 0x6f, 0x63, 0x6b, 0x6c, 0x69, 0x73, 0x74]"

definition long_name :: "byte list" where
  "long_name = replicate 45 0x61"

definition header_only :: "byte list" where
  "header_only = u32_bytes LittleEndian 20 @ replicate 252 0"

text \<open>
  Stand-ins for the validators and parsers that know the two value texts of the
  specification's scenarios, \<^verbatim>\<open>192.0.2.1\<close> and \<^verbatim>\<open>aa:bb:cc:dd:ee:ff\<close>, and reject every
  other text.
\<close>

definition sample_parsers :: "endian \<Rightarrow> parsers" where
  "sample_parsers e =
     \<lparr>is_valid_ip = (\<lambda>v. v = ''192.0.2.1''),
      inet_aton = (\<lambda>v. if v = ''192.0.2.1'' then Some (bytes_u32 e 0xC0 0 2 1) else None),
      is_valid_mac = (\<lambda>v. v = ''aa:bb:cc:dd:ee:ff''),
      ether_aton = (\<lambda>v. if v = ''aa:bb:cc:dd:ee:ff''
                          then Some (Ether_addr 0xAA 0xBB 0xCC 0xDD 0xEE 0xFF) else None)\<rparr>"

section \<open>Auxiliary facts\<close>

subsection \<open>Alignment and byte encodings\<close>

lemma and_not3: "(y :: 32 word) AND NOT 3 = push_bit 2 (drop_bit 2 y)"
proof (rule bit_word_eqI)
  fix n :: nat assume "n < LENGTH(32)"
  have three: "(3 :: 32 word) = mask 2" by (simp add: mask_eq_exp_minus_1)
  show "bit (y AND NOT 3) n = bit (push_bit 2 (drop_bit 2 y)) n"
  proof (cases "n < 2")
    case True then show ?thesis by (simp add: three bit_simps)
  next
    case False
    then have "Suc (Suc (n - 2)) = n" by simp
    with False show ?thesis by (auto simp add: three bit_simps not_less)
  qed
qed

lemma unat_and_not3: "unat ((y::32 word) AND NOT 3) = 4 * (unat y div 4)"
proof -
  have ylt: "unat y < 2 ^ 32" using unsigned_less [of y, where ?'a = nat] by simp
  then have lt: "unat y div 4 < 2 ^ 32" by arith
  have "unat (push_bit 2 (drop_bit 2 y)) = unat ((y div 4) * 4)"
    by (simp add: push_bit_eq_mult drop_bit_eq_div)
  also have "\<dots> = (unat y div 4 * 4) mod 2 ^ 32"
    using lt by (simp add: unat_word_ariths unat_div)
  also have "\<dots> = unat y div 4 * 4"
  proof -
    from ylt have "unat y div 4 * 4 < 2 ^ 32" by arith
    then show ?thesis by simp
  qed
  finally show ?thesis by (simp only: and_not3 mult.commute)
qed

lemma unat_NL_ALIGN:
  "unat x + 3 < 2 ^ 32 \<Longrightarrow> unat (NL_ALIGN x) = 4 * ((unat x + 3) div 4)"
proof -
  assume a: "unat x + 3 < 2 ^ 32"
  have "unat (x + 3) = unat x + 3" using a by (simp add: unat_word_ariths)
  then show ?thesis by (simp only: NL_ALIGN_def unat_and_not3)
qed

lemma NL_ALIGN_mod4: "unat (NL_ALIGN x) mod 4 = 0"
  by (simp only: NL_ALIGN_def unat_and_not3) simp

lemma NL_ALIGN_of_nat:
  assumes "n < 65536"
  shows "unat (NL_ALIGN (word_of_nat n)) = 4 * ((n + 3) div 4)"
proof -
  have "unat (word_of_nat n :: 32 word) = n" using assms by (simp add: unat_of_nat)
  then show ?thesis using assms by (simp add: unat_NL_ALIGN)
qed

lemma NL_ALIGN_aligned:
  assumes "unat x mod 4 = 0"
  shows "NL_ALIGN x = x"
proof -
  have ylt: "unat x < 4294967296" using unsigned_less [of x, where ?'a = nat] by simp
  with assms have "unat x + 3 < 4294967296" by presburger
  then have "unat x + 3 < 2 ^ 32" by simp
  then have "unat (NL_ALIGN x) = 4 * ((unat x + 3) div 4)" by (rule unat_NL_ALIGN)
  also have "\<dots> = unat x" using assms by presburger
  finally show ?thesis by (simp add: word_unat_eq_iff)
qed

lemma length_u16_bytes [simp]: "length (u16_bytes e v) = 2"
  by (cases e) (simp_all add: u16_bytes_def)

lemma length_u32_bytes [simp]: "length (u32_bytes e v) = 4"
  by (cases e) (simp_all add: u32_bytes_def)

lemma u16_le: "(ucast (ucast v :: byte) OR push_bit 8 (ucast (ucast (drop_bit 8 v) :: byte))) = (v :: 16 word)"
  by (rule bit_word_eqI) (auto simp add: bit_simps)

lemma u32_le: "(ucast (ucast v :: byte) OR push_bit 8 (ucast (ucast (drop_bit 8 v) :: byte))
   OR push_bit 16 (ucast (ucast (drop_bit 16 v) :: byte)) OR push_bit 24 (ucast (ucast (drop_bit 24 v) :: byte))) = (v :: 32 word)"
  (is "?l = v")
proof (rule bit_word_eqI)
  fix n :: nat assume "n < LENGTH(32)"
  then have n: "n < 32" by simp
  consider "n < 8" | "8 \<le> n" "n < 16" | "16 \<le> n" "n < 24" | "24 \<le> n" "n < 32" using n by linarith
  then show "bit ?l n = bit v n"
    by cases (auto simp add: bit_simps)
qed

lemma bytes_u16_u16_bytes:
  "bytes_u16 e (u16_bytes e v ! 0) (u16_bytes e v ! Suc 0) = v"
  by (cases e) (simp_all add: bytes_u16_def u16_bytes_def u16_le)

lemma bytes_u32_u32_bytes:
  "bytes_u32 e (u32_bytes e v ! 0) (u32_bytes e v ! Suc 0) (u32_bytes e v ! 2) (u32_bytes e v ! 3) = v"
  by (cases e) (simp_all add: bytes_u32_def u32_bytes_def u32_le)

lemma length_splice:
  "off + length bs \<le> length buf \<Longrightarrow> length (splice off bs buf) = length buf"
  by (simp add: splice_def)

lemma nth_splice_outside:
  "off + length bs \<le> length buf \<Longrightarrow> i < length buf \<Longrightarrow> i < off \<or> off + length bs \<le> i \<Longrightarrow>
   splice off bs buf ! i = buf ! i"
  by (auto simp add: splice_def nth_append)

lemma nth_splice_inside:
  "off + length bs \<le> length buf \<Longrightarrow> j < length bs \<Longrightarrow> splice off bs buf ! (off + j) = bs ! j"
  by (simp add: splice_def nth_append)

subsection \<open>Effect of the buffer operations\<close>

lemma write_bytes_Some:
  "off + length bs \<le> length buf \<Longrightarrow> write_bytes off bs buf = Some (splice off bs buf)"
  by (simp add: write_bytes_def)

lemma get_u16_splice_same:
  assumes "off + 2 \<le> length buf"
  shows "get_u16 e off (splice off (u16_bytes e v) buf) = v"
proof -
  have a: "splice off (u16_bytes e v) buf ! (off + 0) = u16_bytes e v ! 0"
    by (rule nth_splice_inside) (use assms in simp_all)
  have b: "splice off (u16_bytes e v) buf ! (off + 1) = u16_bytes e v ! 1"
    by (rule nth_splice_inside) (use assms in simp_all)
  from a b show ?thesis by (simp add: get_u16_def bytes_u16_u16_bytes)
qed

lemma get_u16_splice_other:
  assumes "off + length bs \<le> length buf" "p + 2 \<le> length buf" "p + 2 \<le> off \<or> off + length bs \<le> p"
  shows "get_u16 e p (splice off bs buf) = get_u16 e p buf"
proof -
  have a: "splice off bs buf ! p = buf ! p"
    by (rule nth_splice_outside) (use assms in auto)
  have b: "splice off bs buf ! (p + 1) = buf ! (p + 1)"
    by (rule nth_splice_outside) (use assms in auto)
  from a b show ?thesis by (simp add: get_u16_def)
qed

lemma get_u32_splice_same:
  assumes "off + 4 \<le> length buf"
  shows "get_u32 e off (splice off (u32_bytes e v) buf) = v"
proof -
  have a: "splice off (u32_bytes e v) buf ! (off + 0) = u32_bytes e v ! 0"
    by (rule nth_splice_inside) (use assms in simp_all)
  have b: "splice off (u32_bytes e v) buf ! (off + 1) = u32_bytes e v ! 1"
    by (rule nth_splice_inside) (use assms in simp_all)
  have c: "splice off (u32_bytes e v) buf ! (off + 2) = u32_bytes e v ! 2"
    by (rule nth_splice_inside) (use assms in simp_all)
  have d: "splice off (u32_bytes e v) buf ! (off + 3) = u32_bytes e v ! 3"
    by (rule nth_splice_inside) (use assms in simp_all)
  from a b c d show ?thesis by (simp add: get_u32_def bytes_u32_u32_bytes)
qed

lemma get_nlmsg_len_set:
  "4 \<le> length buf \<Longrightarrow> get_nlmsg_len e (splice 0 (u32_bytes e v) buf) = v"
  using get_u32_splice_same [of 0 buf e v] by (simp add: get_nlmsg_len_def)

lemma get_nlmsg_len_splice:
  assumes "off + length bs \<le> length buf" "4 \<le> off"
  shows "get_nlmsg_len e (splice off bs buf) = get_nlmsg_len e buf"
proof -
  have "splice off bs buf ! i = buf ! i" if "i < 4" for i
    by (rule nth_splice_outside) (use assms that in auto)
  then show ?thesis by (simp add: get_nlmsg_len_def get_u32_def)
qed

lemma unat_NL_ALIGN_sizeof_nlattr: "unat (NL_ALIGN sizeof_nlattr) = 4"
  by (simp add: NL_ALIGN_def sizeof_nlattr_def)

lemma get_u16_cong:
  "b' ! p = b ! p \<Longrightarrow> b' ! (p + 1) = b ! (p + 1) \<Longrightarrow> get_u16 e p b' = get_u16 e p b"
  by (simp add: get_u16_def)

lemma ucast_of_nat_16_32:
  "n < 65536 \<Longrightarrow> (ucast (word_of_nat n :: 16 word) :: 32 word) = word_of_nat n"
  by (simp add: unsigned_of_nat take_bit_nat_eq_self)

lemma add_attr_effect:
  assumes len: "length buf = BUFF_SZ"
      and l: "unat (get_nlmsg_len e buf) = l" "l mod 4 = 0" "4 \<le> l"
      and fit: "l + 4 + length data \<le> BUFF_SZ"
  obtains b' where "add_attr e ty data buf = Some b'" "length b' = BUFF_SZ"
     "unat (get_nlmsg_len e b') = l + 4 * ((length data + 7) div 4)"
     "get_u16 e l b' = word_of_nat (4 + length data)" "get_u16 e (l + 2) b' = ty"
     "\<And>j. j < length data \<Longrightarrow> b' ! (l + 4 + j) = data ! j"
     "\<And>i. 4 \<le> i \<Longrightarrow> i < BUFF_SZ \<Longrightarrow> i < l \<or> l + 4 + length data \<le> i \<Longrightarrow> b' ! i = buf ! i"
proof -
  define plen :: "16 word" where "plen = word_of_nat (4 + length data)"
  define b1 where "b1 = splice (l + 2) (u16_bytes e ty) buf"
  define b2 where "b2 = splice l (u16_bytes e plen) b1"
  define b3 where "b3 = splice (l + 4) data b2"
  define newlen where "newlen = get_nlmsg_len e buf + NL_ALIGN (ucast plen)"
  define b4 where "b4 = splice 0 (u32_bytes e newlen) b3"
  have sz: "BUFF_SZ = 256" by (simp add: BUFF_SZ_def)
  have attr: "unat (NL_ALIGN (get_nlmsg_len e buf)) = l"
    using l by (simp add: NL_ALIGN_aligned)
  have len1: "length b1 = 256" using len fit sz by (simp add: b1_def length_splice)
  have len2: "length b2 = 256" using len1 fit sz by (simp add: b2_def length_splice)
  have len3: "length b3 = 256" using len2 fit sz by (simp add: b3_def length_splice)
  have len4: "length b4 = 256" using len3 by (simp add: b4_def length_splice)
  have n1: "get_nlmsg_len e b1 = get_nlmsg_len e buf"
    unfolding b1_def by (rule get_nlmsg_len_splice) (use len fit sz l in simp_all)
  have n2: "get_nlmsg_len e b2 = get_nlmsg_len e buf"
    unfolding b2_def n1 [symmetric] by (rule get_nlmsg_len_splice) (use len1 fit sz l in simp_all)
  have n3: "get_nlmsg_len e b3 = get_nlmsg_len e buf"
    unfolding b3_def n2 [symmetric] by (rule get_nlmsg_len_splice) (use len2 fit sz l in simp_all)
  have s1: "put_u16 e (l + 2) ty buf = Some b1"
    using len fit sz by (simp add: put_u16_def write_bytes_def b1_def)
  have s2: "put_u16 e l plen b1 = Some b2"
    using len1 fit sz by (simp add: put_u16_def write_bytes_def b2_def)
  have s3: "write_bytes (l + 4) data b2 = Some b3"
    using len2 fit sz by (simp add: write_bytes_def b3_def)
  have s4: "set_nlmsg_len e (get_nlmsg_len e b3 + NL_ALIGN (ucast plen)) b3 = Some b4"
    using len3 by (simp add: set_nlmsg_len_def put_u32_def write_bytes_def b4_def newlen_def n3)
  have run: "add_attr e ty data buf = Some b4"
    unfolding add_attr_def Let_def attr unat_NL_ALIGN_sizeof_nlattr plen_def [symmetric]
    by (simp only: s1 s2 s3 s4 Option.bind.bind_lunit)
  have small: "4 + length data < 65536" using fit sz by simp
  have uc: "ucast plen = (word_of_nat (4 + length data) :: 32 word)"
    unfolding plen_def using small by (rule ucast_of_nat_16_32)
  have "unat (NL_ALIGN (ucast plen)) = 4 * ((4 + length data + 3) div 4)"
    unfolding uc by (rule NL_ALIGN_of_nat [OF small])
  then have adv: "unat (NL_ALIGN (ucast plen)) = 4 * ((length data + 7) div 4)"
    by (simp add: add.commute)
  have "unat newlen = l + 4 * ((length data + 7) div 4)"
    unfolding newlen_def using l(1) adv fit sz by (simp add: unat_word_ariths)
  moreover have "get_nlmsg_len e b4 = newlen"
    unfolding b4_def by (rule get_nlmsg_len_set) (use len3 in simp)
  ultimately have p3: "unat (get_nlmsg_len e b4) = l + 4 * ((length data + 7) div 4)" by simp
  have nth4: "b4 ! i = b3 ! i" if "4 \<le> i" "i < 256" for i
    unfolding b4_def by (rule nth_splice_outside) (use that len3 in auto)
  have nth3: "b3 ! i = b2 ! i" if "i < 256" "i < l + 4 \<or> l + 4 + length data \<le> i" for i
    unfolding b3_def by (rule nth_splice_outside) (use that len2 fit sz in auto)
  have nth2: "b2 ! i = b1 ! i" if "i < 256" "i < l \<or> l + 2 \<le> i" for i
    unfolding b2_def by (rule nth_splice_outside) (use that len1 fit sz in auto)
  have nth1: "b1 ! i = buf ! i" if "i < 256" "i < l + 2 \<or> l + 4 \<le> i" for i
    unfolding b1_def by (rule nth_splice_outside) (use that len fit sz in auto)
  have g2: "get_u16 e l b2 = plen"
    unfolding b2_def by (rule get_u16_splice_same) (use len1 fit sz in simp)
  have g1: "get_u16 e (l + 2) b1 = ty"
    unfolding b1_def by (rule get_u16_splice_same) (use len fit sz in simp)
  have "get_u16 e l b4 = get_u16 e l b2"
  proof (rule get_u16_cong)
    show "b4 ! l = b2 ! l"
      using nth4 [of l] nth3 [of l] l fit sz by simp
    show "b4 ! (l + 1) = b2 ! (l + 1)"
      using nth4 [of "l + 1"] nth3 [of "l + 1"] l fit sz by simp
  qed
  with g2 have p4: "get_u16 e l b4 = word_of_nat (4 + length data)"
    by (simp only: plen_def)
  have "get_u16 e (l + 2) b4 = get_u16 e (l + 2) b1"
  proof (rule get_u16_cong)
    show "b4 ! (l + 2) = b1 ! (l + 2)"
      using nth4 [of "l + 2"] nth3 [of "l + 2"] nth2 [of "l + 2"] l fit sz by simp
    show "b4 ! (l + 2 + 1) = b1 ! (l + 2 + 1)"
      using nth4 [of "l + 2 + 1"] nth3 [of "l + 2 + 1"] nth2 [of "l + 2 + 1"] l fit sz by simp
  qed
  with g1 have p5: "get_u16 e (l + 2) b4 = ty"
    by (simp only:)
  have p6: "b4 ! (l + 4 + j) = data ! j" if "j < length data" for j
  proof -
    have "b3 ! (l + 4 + j) = data ! j"
      unfolding b3_def by (rule nth_splice_inside) (use that len2 fit sz in simp_all)
    then show ?thesis using nth4 [of "l + 4 + j"] that fit sz l by simp
  qed
  have p7: "b4 ! i = buf ! i" if "4 \<le> i" "i < BUFF_SZ" "i < l \<or> l + 4 + length data \<le> i" for i
    using that nth4 [of i] nth3 [of i] nth2 [of i] nth1 [of i] sz by auto
  show ?thesis
    by (rule that [OF run _ p3 p4 p5 p6 p7]) (use len4 sz in simp_all)
qed

lemma put_u16_effect:
  assumes "off + 2 \<le> length buf"
  obtains b' where "put_u16 e off v buf = Some b'" "length b' = length buf"
    "get_u16 e off b' = v"
    "\<And>i. i < length buf \<Longrightarrow> i < off \<or> off + 2 \<le> i \<Longrightarrow> b' ! i = buf ! i"
proof (rule that [of "splice off (u16_bytes e v) buf"])
  show "put_u16 e off v buf = Some (splice off (u16_bytes e v) buf)"
    using assms by (simp add: put_u16_def write_bytes_def)
  show "length (splice off (u16_bytes e v) buf) = length buf"
    using assms by (simp add: length_splice)
  show "get_u16 e off (splice off (u16_bytes e v) buf) = v"
    using assms by (rule get_u16_splice_same)
  show "splice off (u16_bytes e v) buf ! i = buf ! i"
    if "i < length buf" "i < off \<or> off + 2 \<le> i" for i
    by (rule nth_splice_outside) (use assms that in auto)
qed

lemma set_nlmsg_len_effect:
  assumes "4 \<le> length buf"
  obtains b' where "set_nlmsg_len e v buf = Some b'" "length b' = length buf"
    "get_nlmsg_len e b' = v"
    "\<And>i. i < length buf \<Longrightarrow> 4 \<le> i \<Longrightarrow> b' ! i = buf ! i"
proof (rule that [of "splice 0 (u32_bytes e v) buf"])
  show "set_nlmsg_len e v buf = Some (splice 0 (u32_bytes e v) buf)"
    using assms by (simp add: set_nlmsg_len_def put_u32_def write_bytes_def)
  show "length (splice 0 (u32_bytes e v) buf) = length buf"
    using assms by (simp add: length_splice)
  show "get_nlmsg_len e (splice 0 (u32_bytes e v) buf) = v"
    using assms by (rule get_nlmsg_len_set)
  show "splice 0 (u32_bytes e v) buf ! i = buf ! i" if "i < length buf" "4 \<le> i" for i
    by (rule nth_splice_outside) (use assms that in auto)
qed

lemma write_byte_effect:
  assumes "off < length buf"
  obtains b' where "write_bytes off [x] buf = Some b'" "length b' = length buf"
    "b' ! off = x"
    "\<And>i. i < length buf \<Longrightarrow> i \<noteq> off \<Longrightarrow> b' ! i = buf ! i"
proof (rule that [of "splice off [x] buf"])
  show "write_bytes off [x] buf = Some (splice off [x] buf)"
    using assms by (simp add: write_bytes_def)
  show "length (splice off [x] buf) = length buf"
    using assms by (simp add: length_splice)
  show "splice off [x] buf ! off = x"
    using nth_splice_inside [of off "[x]" buf 0] assms by simp
  show "splice off [x] buf ! i = buf ! i" if "i < length buf" "i \<noteq> off" for i
    by (rule nth_splice_outside) (use assms that in auto)
qed

lemma get_nlmsg_len_cong:
  "(\<And>i. i < 4 \<Longrightarrow> b' ! i = b ! i) \<Longrightarrow> get_nlmsg_len e b' = get_nlmsg_len e b"
  by (simp add: get_nlmsg_len_def get_u32_def)

lemma strlen_c_str: "length (c_str s) = strlen s"
  by (simp add: strlen_def)

lemma msg_header_effect:
  assumes fit: "strlen setname + 33 \<le> BUFF_SZ"
  obtains b where "msg_header e ty fam setname = Some b" "length b = BUFF_SZ"
    "unat (get_nlmsg_len e b) = 28 + 4 * ((strlen setname + 8) div 4)"
    "get_u16 e 4 b = ty" "get_u16 e 6 b = NLM_F_REQUEST"
    "b ! 16 = word_of_int fam" "b ! 17 = NFNETLINK_V0"
    "get_u16 e 20 b = 5" "get_u16 e 22 b = IPSET_ATTR_PROTOCOL" "b ! 24 = IPSET_PROTOCOL"
    "get_u16 e 28 b = word_of_nat (strlen setname + 5)" "get_u16 e 30 b = IPSET_ATTR_SETNAME"
    "\<And>j. j < strlen setname \<Longrightarrow> b ! (32 + j) = c_str setname ! j"
    "b ! (32 + strlen setname) = 0"
proof -
  have sz: "BUFF_SZ = 256" by (simp add: BUFF_SZ_def)
  define b0 :: "byte list" where "b0 = replicate BUFF_SZ 0"
  have l0: "length b0 = 256" by (simp add: b0_def sz)
  obtain b1 where s1: "set_nlmsg_len e (NL_ALIGN sizeof_nlmsghdr) b0 = Some b1"
    and l1: "length b1 = 256" and n1: "get_nlmsg_len e b1 = NL_ALIGN sizeof_nlmsghdr"
    using set_nlmsg_len_effect [of b0 e "NL_ALIGN sizeof_nlmsghdr"] l0 by auto
  obtain b2 where s2: "put_u16 e 4 ty b1 = Some b2"
    and l2: "length b2 = 256" and t2: "get_u16 e 4 b2 = ty"
    and f2: "\<And>i. i < 256 \<Longrightarrow> i < 4 \<or> 6 \<le> i \<Longrightarrow> b2 ! i = b1 ! i"
    using put_u16_effect [of 4 b1 e ty] l1 by auto
  obtain b3 where s3: "put_u16 e 6 NLM_F_REQUEST b2 = Some b3"
    and l3: "length b3 = 256" and t3: "get_u16 e 6 b3 = NLM_F_REQUEST"
    and f3: "\<And>i. i < 256 \<Longrightarrow> i < 6 \<or> 8 \<le> i \<Longrightarrow> b3 ! i = b2 ! i"
    using put_u16_effect [of 6 b2 e NLM_F_REQUEST] l2 by auto
  have n3: "get_nlmsg_len e b3 = 16"
  proof -
    have "get_nlmsg_len e b3 = get_nlmsg_len e b1"
      by (rule get_nlmsg_len_cong) (simp add: f3 f2)
    then show ?thesis by (simp add: n1 NL_ALIGN_def sizeof_nlmsghdr_def)
  qed
  obtain b5 where s5: "set_nlmsg_len e (get_nlmsg_len e b3 + NL_ALIGN sizeof_nfgenmsg) b3 = Some b5"
    and l5: "length b5 = 256"
    and n5: "get_nlmsg_len e b5 = get_nlmsg_len e b3 + NL_ALIGN sizeof_nfgenmsg"
    and f5: "\<And>i. i < 256 \<Longrightarrow> 4 \<le> i \<Longrightarrow> b5 ! i = b3 ! i"
    using set_nlmsg_len_effect [of b3 e "get_nlmsg_len e b3 + NL_ALIGN sizeof_nfgenmsg"] l3 by auto
  have nfg: "unat (get_nlmsg_len e b3) = 16" by (simp add: n3)
  obtain b6 where s6: "write_bytes 16 [word_of_int fam] b5 = Some b6"
    and l6: "length b6 = 256" and t6: "b6 ! 16 = word_of_int fam"
    and f6: "\<And>i. i < 256 \<Longrightarrow> i \<noteq> 16 \<Longrightarrow> b6 ! i = b5 ! i"
    using write_byte_effect [of 16 b5 "word_of_int fam"] l5 by auto
  obtain b7 where s7: "write_bytes (16 + 1) [NFNETLINK_V0] b6 = Some b7"
    and l7: "length b7 = 256" and t7: "b7 ! 17 = NFNETLINK_V0"
    and f7: "\<And>i. i < 256 \<Longrightarrow> i \<noteq> 17 \<Longrightarrow> b7 ! i = b6 ! i"
    using write_byte_effect [of "16 + 1" b6 NFNETLINK_V0] l6 by auto
  obtain b8 where s8: "put_u16 e (16 + 2) (htons e 0) b7 = Some b8"
    and l8: "length b8 = 256"
    and f8: "\<And>i. i < 256 \<Longrightarrow> i < 18 \<or> 20 \<le> i \<Longrightarrow> b8 ! i = b7 ! i"
    using put_u16_effect [of "16 + 2" b7 e "htons e 0"] l7 by auto
  have n8: "unat (get_nlmsg_len e b8) = 20"
  proof -
    have "get_nlmsg_len e b8 = get_nlmsg_len e b5"
      by (rule get_nlmsg_len_cong) (simp add: f8 f7 f6)
    then show ?thesis by (simp add: n5 n3 NL_ALIGN_def sizeof_nfgenmsg_def)
  qed
  obtain b9 where s9: "add_attr e IPSET_ATTR_PROTOCOL [IPSET_PROTOCOL] b8 = Some b9"
    and l9: "length b9 = 256" and n9: "unat (get_nlmsg_len e b9) = 28"
    and a9: "get_u16 e 20 b9 = 5" "get_u16 e 22 b9 = IPSET_ATTR_PROTOCOL" "b9 ! 24 = IPSET_PROTOCOL"
    and f9: "\<And>i. 4 \<le> i \<Longrightarrow> i < 256 \<Longrightarrow> i < 20 \<or> 25 \<le> i \<Longrightarrow> b9 ! i = b8 ! i"
    using add_attr_effect [of b8 e 20 "[IPSET_PROTOCOL]" IPSET_ATTR_PROTOCOL] l8 n8 sz
    by auto
  define n where "n = strlen setname"
  have nfit: "n \<le> 223" using fit sz by (simp add: n_def)
  have ldata: "length (c_str setname @ [0]) = n + 1" by (simp add: n_def strlen_def)
  obtain b10 where s10: "add_attr e IPSET_ATTR_SETNAME (c_str setname @ [0]) b9 = Some b10"
    and l10: "length b10 = 256"
    and n10: "unat (get_nlmsg_len e b10) = 28 + 4 * ((n + 8) div 4)"
    and a10: "get_u16 e 28 b10 = word_of_nat (n + 5)" "get_u16 e 30 b10 = IPSET_ATTR_SETNAME"
    and d10: "\<And>j. j < n + 1 \<Longrightarrow> b10 ! (32 + j) = (c_str setname @ [0]) ! j"
    and f10: "\<And>i. 4 \<le> i \<Longrightarrow> i < 256 \<Longrightarrow> i < 28 \<or> 33 + n \<le> i \<Longrightarrow> b10 ! i = b9 ! i"
    using add_attr_effect [of b9 e 28 "c_str setname @ [0]" IPSET_ATTR_SETNAME] l9 n9 sz nfit
    unfolding ldata by (auto simp add: add.commute)
  have run: "msg_header e ty fam setname = Some b10"
    unfolding msg_header_def Let_def b0_def [symmetric]
    by (simp only: Option.bind.bind_lunit s1 s2 s3 s5 nfg s6 s7 s8 s9 s10)
  show ?thesis
  proof (rule that [OF run])
    show "length b10 = BUFF_SZ" by (simp add: l10 sz)
    show "unat (get_nlmsg_len e b10) = 28 + 4 * ((strlen setname + 8) div 4)"
      using n10 by (simp add: n_def)
    show "get_u16 e 4 b10 = ty"
      using t2 by (simp add: get_u16_def f10 f9 f8 f7 f6 f5 f3)
    show "get_u16 e 6 b10 = NLM_F_REQUEST"
      using t3 by (simp add: get_u16_def f10 f9 f8 f7 f6 f5)
    show "b10 ! 16 = word_of_int fam"
      using t6 by (simp add: f10 f9 f8 f7)
    show "b10 ! 17 = NFNETLINK_V0"
      using t7 by (simp add: f10 f9 f8)
    show "get_u16 e 20 b10 = 5"
      using a9(1) by (simp add: get_u16_def f10)
    show "get_u16 e 22 b10 = IPSET_ATTR_PROTOCOL"
      using a9(2) by (simp add: get_u16_def f10)
    show "b10 ! 24 = IPSET_PROTOCOL"
      using a9(3) by (simp add: f10)
    show "get_u16 e 28 b10 = word_of_nat (strlen setname + 5)"
      using a10(1) by (simp add: n_def)
    show "get_u16 e 30 b10 = IPSET_ATTR_SETNAME"
      by (rule a10(2))
    show "b10 ! (32 + j) = c_str setname ! j" if "j < strlen setname" for j
      using d10 [of j] that by (simp add: n_def nth_append strlen_def)
    show "b10 ! (32 + strlen setname) = 0"
      using d10 [of n] by (simp add: n_def nth_append strlen_def)
  qed
qed

lemma open_nested_effect:
  assumes len: "length buf = BUFF_SZ"
      and l: "unat (get_nlmsg_len e buf) = l" "l mod 4 = 0" "4 \<le> l"
      and fit: "l + 4 \<le> BUFF_SZ"
  obtains b' where "open_nested e ty buf = Some (b', l)" "length b' = BUFF_SZ"
     "unat (get_nlmsg_len e b') = l + 4"
     "get_u16 e (l + 2) b' = NLA_F_NESTED OR ty"
     "\<And>i. 4 \<le> i \<Longrightarrow> i < BUFF_SZ \<Longrightarrow> i < l + 2 \<or> l + 4 \<le> i \<Longrightarrow> b' ! i = buf ! i"
proof -
  have sz: "BUFF_SZ = 256" by (simp add: BUFF_SZ_def)
  have nested: "unat (NL_ALIGN (get_nlmsg_len e buf)) = l"
    using l by (simp add: NL_ALIGN_aligned)
  obtain b1 where s1: "set_nlmsg_len e (get_nlmsg_len e buf + NL_ALIGN sizeof_nlattr) buf = Some b1"
    and l1: "length b1 = 256"
    and n1: "get_nlmsg_len e b1 = get_nlmsg_len e buf + NL_ALIGN sizeof_nlattr"
    and f1: "\<And>i. i < 256 \<Longrightarrow> 4 \<le> i \<Longrightarrow> b1 ! i = buf ! i"
    using set_nlmsg_len_effect [of buf e "get_nlmsg_len e buf + NL_ALIGN sizeof_nlattr"] len sz
    by auto
  have fit1: "l + 2 + 2 \<le> length b1" using l1 fit sz by simp
  obtain b2 where s2: "put_u16 e (l + 2) (NLA_F_NESTED OR ty) b1 = Some b2"
    and l2': "length b2 = length b1" and t2: "get_u16 e (l + 2) b2 = NLA_F_NESTED OR ty"
    and f2': "\<And>i. i < length b1 \<Longrightarrow> i < l + 2 \<or> l + 2 + 2 \<le> i \<Longrightarrow> b2 ! i = b1 ! i"
    using put_u16_effect [OF fit1, of e "NLA_F_NESTED OR ty"] by blast
  have l2: "length b2 = 256" using l2' l1 by simp
  have f2: "b2 ! i = b1 ! i" if "i < 256" "i < l + 2 \<or> l + 4 \<le> i" for i
    using f2' [of i] that l1 by auto
  have run: "open_nested e ty buf = Some (b2, l)"
    unfolding open_nested_def Let_def nested
    by (simp only: Option.bind.bind_lunit s1 s2)
  have "get_nlmsg_len e b2 = get_nlmsg_len e b1"
    by (rule get_nlmsg_len_cong) (use l in \<open>simp add: f2\<close>)
  then have n2: "unat (get_nlmsg_len e b2) = l + 4"
    using l(1) fit sz unat_NL_ALIGN_sizeof_nlattr by (simp add: n1 unat_word_ariths)
  show ?thesis
  proof (rule that [OF run _ n2 t2])
    show "length b2 = BUFF_SZ" by (simp add: l2 sz)
    show "b2 ! i = buf ! i" if "4 \<le> i" "i < BUFF_SZ" "i < l + 2 \<or> l + 4 \<le> i" for i
      using that f2 [of i] f1 [of i] sz by auto
  qed
qed

lemma close_nested_effect:
  assumes len: "length buf = BUFF_SZ" and nested: "4 \<le> nested" "nested + 2 \<le> BUFF_SZ"
  obtains b' where "close_nested e nested buf = Some b'" "length b' = BUFF_SZ"
     "get_nlmsg_len e b' = get_nlmsg_len e buf"
     "get_u16 e nested b' =
        word_of_int (int (unat (NL_ALIGN (get_nlmsg_len e buf))) - int nested)"
     "\<And>i. i < BUFF_SZ \<Longrightarrow> i < nested \<or> nested + 2 \<le> i \<Longrightarrow> b' ! i = buf ! i"
proof -
  define v :: "16 word"
    where "v = word_of_int (int (unat (NL_ALIGN (get_nlmsg_len e buf))) - int nested)"
  obtain b1 where s1: "put_u16 e nested v buf = Some b1"
    and l1: "length b1 = length buf" and t1: "get_u16 e nested b1 = v"
    and f1: "\<And>i. i < length buf \<Longrightarrow> i < nested \<or> nested + 2 \<le> i \<Longrightarrow> b1 ! i = buf ! i"
    using put_u16_effect [of nested buf e v] nested len by auto
  have run: "close_nested e nested buf = Some b1"
    unfolding close_nested_def v_def [symmetric] by (rule s1)
  have n1: "get_nlmsg_len e b1 = get_nlmsg_len e buf"
    by (rule get_nlmsg_len_cong) (use nested len in \<open>simp add: f1 BUFF_SZ_def\<close>)
  show ?thesis
    by (rule that [OF run _ n1]) (use l1 len t1 f1 in \<open>simp_all add: v_def\<close>)
qed

subsection \<open>Effect of the builders\<close>

lemma name_span_bounds:
  "strlen setname < IPSET_MAXNAMELEN \<Longrightarrow> name_span setname \<le> 36"
  "name_span setname mod 4 = 0"
  "strlen setname + 5 \<le> name_span setname"
  by (simp_all add: name_span_def IPSET_MAXNAMELEN_def)

lemma new_add_to_ipset_buffer_effect:
  fixes remove af :: int and setname :: "byte list"
  assumes short: "strlen setname < IPSET_MAXNAMELEN"
  defines "a \<equiv> name_span setname"
  defines "cmd \<equiv> (if remove \<noteq> 0 then IPSET_CMD_DEL else IPSET_CMD_ADD) OR push_bit 8 NFNL_SUBSYS_IPSET"
  defines "leaf \<equiv> (if af = AF_INET then IPSET_ATTR_IPADDR_IPV4 else IPSET_ATTR_IPADDR_IPV6)
          OR NLA_F_NET_BYTEORDER"
  obtains bo b1 b where
    "new_add_to_ipset_open e setname ipaddr af remove = Some (bo, 28 + a, 32 + a)"
    "close_nested e (32 + a) bo = Some b1"
    "close_nested e (28 + a) b1 = Some b"
    "new_add_to_ipset_buffer e setname ipaddr af remove = Some b"
    "length b = BUFF_SZ"
    "unat (get_nlmsg_len e bo) = 44 + a"
    "get_nlmsg_len e b1 = get_nlmsg_len e bo"
    "get_nlmsg_len e b = get_nlmsg_len e bo"
    "get_u16 e 4 b = cmd"
    "b ! 16 = word_of_int af"
    "get_u16 e (28 + a) b = 16"
    "get_u16 e (30 + a) b = NLA_F_NESTED OR IPSET_ATTR_DATA"
    "get_u16 e (32 + a) b = 12"
    "get_u16 e (34 + a) b = NLA_F_NESTED OR IPSET_ATTR_IP"
    "get_u16 e (36 + a) b = 8"
    "get_u16 e (38 + a) b = leaf"
    "\<And>j. j < 4 \<Longrightarrow> b ! (40 + a + j) = u32_bytes e ipaddr ! j"
proof -
  have sz: "BUFF_SZ = 256" by (simp add: BUFF_SZ_def)
  have a36: "a \<le> 36" and a4: "a mod 4 = 0"
    using name_span_bounds [of setname] short by (simp_all add: a_def)
  have hfit: "strlen setname + 33 \<le> BUFF_SZ"
    using short by (simp add: sz IPSET_MAXNAMELEN_def)
  obtain h where sh: "msg_header e cmd af setname = Some h"
    and lh: "length h = BUFF_SZ"
    and nh: "unat (get_nlmsg_len e h) = 28 + a"
    and th: "get_u16 e 4 h = cmd" and fh: "h ! 16 = word_of_int af"
    using msg_header_effect [OF hfit, of e cmd af] unfolding a_def name_span_def by blast
  have c0: "(28 + a) mod 4 = 0" "4 \<le> 28 + a" "28 + a + 4 \<le> BUFF_SZ"
    using a36 a4 sz by presburger+
  obtain o0 where s0: "open_nested e IPSET_ATTR_DATA h = Some (o0, 28 + a)"
    and l0: "length o0 = BUFF_SZ"
    and n0: "unat (get_nlmsg_len e o0) = 28 + a + 4"
    and t0: "get_u16 e (28 + a + 2) o0 = NLA_F_NESTED OR IPSET_ATTR_DATA"
    and f0: "\<And>i. 4 \<le> i \<Longrightarrow> i < BUFF_SZ \<Longrightarrow> i < 28 + a + 2 \<or> 28 + a + 4 \<le> i \<Longrightarrow> o0 ! i = h ! i"
    using open_nested_effect [OF lh nh c0, of IPSET_ATTR_DATA] by blast
  have c1: "(28 + a + 4) mod 4 = 0" "4 \<le> 28 + a + 4" "28 + a + 4 + 4 \<le> BUFF_SZ"
    using a36 a4 sz by presburger+
  obtain o1 where s1: "open_nested e IPSET_ATTR_IP o0 = Some (o1, 28 + a + 4)"
    and l1: "length o1 = BUFF_SZ"
    and n1: "unat (get_nlmsg_len e o1) = 28 + a + 4 + 4"
    and t1: "get_u16 e (28 + a + 4 + 2) o1 = NLA_F_NESTED OR IPSET_ATTR_IP"
    and f1: "\<And>i. 4 \<le> i \<Longrightarrow> i < BUFF_SZ \<Longrightarrow> i < 28 + a + 4 + 2 \<or> 28 + a + 4 + 4 \<le> i \<Longrightarrow> o1 ! i = o0 ! i"
    using open_nested_effect [OF l0 n0 c1, of IPSET_ATTR_IP] by blast
  define data where "data = take INADDRSZ (u32_bytes e ipaddr)"
  have data: "data = u32_bytes e ipaddr" by (simp add: data_def INADDRSZ_def)
  have ld: "length data = 4" by (simp add: data)
  have c2: "(28 + a + 4 + 4) mod 4 = 0" "4 \<le> 28 + a + 4 + 4"
    "28 + a + 4 + 4 + 4 + length data \<le> BUFF_SZ"
    using a36 a4 sz ld by presburger+
  obtain bo where s2: "add_attr e leaf data o1 = Some bo"
    and l2: "length bo = BUFF_SZ"
    and n2: "unat (get_nlmsg_len e bo) = 28 + a + 4 + 4 + 4 * ((length data + 7) div 4)"
    and t2: "get_u16 e (28 + a + 4 + 4) bo = word_of_nat (4 + length data)"
      "get_u16 e (28 + a + 4 + 4 + 2) bo = leaf"
    and d2: "\<And>j. j < length data \<Longrightarrow> bo ! (28 + a + 4 + 4 + 4 + j) = data ! j"
    and f2: "\<And>i. 4 \<le> i \<Longrightarrow> i < BUFF_SZ \<Longrightarrow>
        i < 28 + a + 4 + 4 \<or> 28 + a + 4 + 4 + 4 + length data \<le> i \<Longrightarrow> bo ! i = o1 ! i"
    using add_attr_effect [OF l1 n1 c2, of leaf] by blast
  have no: "unat (get_nlmsg_len e bo) = 44 + a" using n2 ld by simp
  have "(44 + a) mod 4 = 0" using a4 by presburger
  then have al: "unat (NL_ALIGN (get_nlmsg_len e bo)) = 44 + a"
    using no by (simp add: NL_ALIGN_aligned)
  have k1: "4 \<le> 32 + a" "32 + a + 2 \<le> BUFF_SZ" using a36 sz by simp_all
  obtain b1 where s3: "close_nested e (32 + a) bo = Some b1"
    and l3: "length b1 = BUFF_SZ"
    and n3: "get_nlmsg_len e b1 = get_nlmsg_len e bo"
    and t3: "get_u16 e (32 + a) b1 =
        word_of_int (int (unat (NL_ALIGN (get_nlmsg_len e bo))) - int (32 + a))"
    and f3: "\<And>i. i < BUFF_SZ \<Longrightarrow> i < 32 + a \<or> 32 + a + 2 \<le> i \<Longrightarrow> b1 ! i = bo ! i"
    using close_nested_effect [OF l2 k1, of e] by blast
  have k0: "4 \<le> 28 + a" "28 + a + 2 \<le> BUFF_SZ" using a36 sz by simp_all
  obtain b where s4: "close_nested e (28 + a) b1 = Some b"
    and l4: "length b = BUFF_SZ"
    and n4: "get_nlmsg_len e b = get_nlmsg_len e b1"
    and t4: "get_u16 e (28 + a) b =
        word_of_int (int (unat (NL_ALIGN (get_nlmsg_len e b1))) - int (28 + a))"
    and f4: "\<And>i. i < BUFF_SZ \<Longrightarrow> i < 28 + a \<or> 28 + a + 2 \<le> i \<Longrightarrow> b ! i = b1 ! i"
    using close_nested_effect [OF l3 k0, of e] by blast
  have e1: "28 + a + 4 = 32 + a" by simp
  have run_open: "new_add_to_ipset_open e setname ipaddr af remove = Some (bo, 28 + a, 32 + a)"
    unfolding new_add_to_ipset_open_def cmd_def [symmetric] leaf_def [symmetric]
      data_def [symmetric]
    by (simp only: Option.bind.bind_lunit prod.case sh s0 s1 s2 e1)
  have run: "new_add_to_ipset_buffer e setname ipaddr af remove = Some b"
    unfolding new_add_to_ipset_buffer_def
    by (simp only: Option.bind.bind_lunit prod.case run_open s3 s4)
  have frame: "b ! i = h ! i" if "4 \<le> i" "i < 28 + a" for i
    using that f4 [of i] f3 [of i] f2 [of i] f1 [of i] f0 [of i] a36 sz by simp
  have fb: "b ! i = bo ! i" if "i < 256" "34 + a \<le> i" for i
    using that f4 [of i] f3 [of i] sz by simp
  have fo: "bo ! i = o1 ! i" if "4 \<le> i" "i < 36 + a" for i
    using that f2 [of i] a36 sz by simp
  show ?thesis
  proof (rule that [OF run_open s3 s4 run l4 no n3])
    show "get_nlmsg_len e b = get_nlmsg_len e bo" by (simp add: n4 n3)
    have "get_u16 e 4 b = get_u16 e 4 h"
      by (rule get_u16_cong) (simp_all add: frame)
    then show "get_u16 e 4 b = cmd" by (simp add: th)
    show "b ! 16 = word_of_int af" using frame [of 16] fh by simp
    show "get_u16 e (28 + a) b = 16"
      using t4 by (simp add: n3 al)
    have "get_u16 e (30 + a) b = get_u16 e (30 + a) o0"
    proof (rule get_u16_cong)
      show "b ! (30 + a) = o0 ! (30 + a)"
        using f4 [of "30 + a"] f3 [of "30 + a"] fo [of "30 + a"] f1 [of "30 + a"] a36 sz by simp
      show "b ! (30 + a + 1) = o0 ! (30 + a + 1)"
        using f4 [of "30 + a + 1"] f3 [of "30 + a + 1"] fo [of "30 + a + 1"] f1 [of "30 + a + 1"]
          a36 sz by simp
    qed
    then show "get_u16 e (30 + a) b = NLA_F_NESTED OR IPSET_ATTR_DATA" using t0 by simp
    have "get_u16 e (32 + a) b = get_u16 e (32 + a) b1"
      by (rule get_u16_cong) (use a36 sz in \<open>simp_all add: f4\<close>)
    then show "get_u16 e (32 + a) b = 12"
      using t3 by (simp add: al)
    have "get_u16 e (34 + a) b = get_u16 e (34 + a) o1"
    proof (rule get_u16_cong)
      show "b ! (34 + a) = o1 ! (34 + a)"
        using fb [of "34 + a"] fo [of "34 + a"] a36 sz by simp
      show "b ! (34 + a + 1) = o1 ! (34 + a + 1)"
        using fb [of "34 + a + 1"] fo [of "34 + a + 1"] a36 sz by simp
    qed
    then show "get_u16 e (34 + a) b = NLA_F_NESTED OR IPSET_ATTR_IP" using t1 by simp
    have "get_u16 e (36 + a) b = get_u16 e (36 + a) bo"
    proof (rule get_u16_cong)
      show "b ! (36 + a) = bo ! (36 + a)"
        using fb [of "36 + a"] a36 sz by simp
      show "b ! (36 + a + 1) = bo ! (36 + a + 1)"
        using fb [of "36 + a + 1"] a36 sz by simp
    qed
    then show "get_u16 e (36 + a) b = 8" using t2(1) ld by simp
    have "get_u16 e (38 + a) b = get_u16 e (38 + a) bo"
    proof (rule get_u16_cong)
      show "b ! (38 + a) = bo ! (38 + a)"
        using fb [of "38 + a"] a36 sz by simp
      show "b ! (38 + a + 1) = bo ! (38 + a + 1)"
        using fb [of "38 + a + 1"] a36 sz by simp
    qed
    then show "get_u16 e (38 + a) b = leaf" using t2(2) by simp
    show "b ! (40 + a + j) = u32_bytes e ipaddr ! j" if "j < 4" for j
      using that fb [of "40 + a + j"] d2 [of j] ld a36 sz by (simp add: data)
  qed
qed

lemma new_add_mac_to_ipset_buffer_effect:
  fixes af timeout :: int and setname :: "byte list"
  assumes short: "strlen setname < IPSET_MAXNAMELEN"
  defines "a \<equiv> name_span setname"
  obtains b where
    "new_add_mac_to_ipset_buffer e setname eth_addr af timeout = Some b"
    "length b = BUFF_SZ"
    "unat (get_nlmsg_len e b) = 40 + a"
    "get_u16 e 4 b = IPSET_CMD_ADD OR push_bit 8 NFNL_SUBSYS_IPSET"
    "b ! 16 = word_of_int af"
    "get_u16 e (28 + a) b = 10"
    "get_u16 e (30 + a) b = IPSET_ATTR_ETHER"
    "\<And>j. j < 6 \<Longrightarrow> b ! (32 + a + j) = ether_addr_octet eth_addr ! j"
proof -
  have sz: "BUFF_SZ = 256" by (simp add: BUFF_SZ_def)
  have a36: "a \<le> 36" and a4: "a mod 4 = 0"
    using name_span_bounds [of setname] short by (simp_all add: a_def)
  have hfit: "strlen setname + 33 \<le> BUFF_SZ"
    using short by (simp add: sz IPSET_MAXNAMELEN_def)
  obtain h where sh: "msg_header e (IPSET_CMD_ADD OR push_bit 8 NFNL_SUBSYS_IPSET) af setname = Some h"
    and lh: "length h = BUFF_SZ"
    and nh: "unat (get_nlmsg_len e h) = 28 + a"
    and th: "get_u16 e 4 h = IPSET_CMD_ADD OR push_bit 8 NFNL_SUBSYS_IPSET"
    and fh: "h ! 16 = word_of_int af"
    using msg_header_effect [OF hfit, of e "IPSET_CMD_ADD OR push_bit 8 NFNL_SUBSYS_IPSET" af]
    unfolding a_def name_span_def by blast
  define data where "data = take INETHSZ (ether_addr_octet eth_addr)"
  have data: "data = ether_addr_octet eth_addr"
    by (cases eth_addr) (simp add: data_def INETHSZ_def)
  have ld: "length data = 6" by (cases eth_addr) (simp add: data)
  have c: "(28 + a) mod 4 = 0" "4 \<le> 28 + a" "28 + a + 4 + length data \<le> BUFF_SZ"
    using a36 a4 sz ld by presburger+
  obtain b where s: "add_attr e IPSET_ATTR_ETHER data h = Some b"
    and l: "length b = BUFF_SZ"
    and n: "unat (get_nlmsg_len e b) = 28 + a + 4 * ((length data + 7) div 4)"
    and t: "get_u16 e (28 + a) b = word_of_nat (4 + length data)"
      "get_u16 e (28 + a + 2) b = IPSET_ATTR_ETHER"
    and d: "\<And>j. j < length data \<Longrightarrow> b ! (28 + a + 4 + j) = data ! j"
    and f: "\<And>i. 4 \<le> i \<Longrightarrow> i < BUFF_SZ \<Longrightarrow>
        i < 28 + a \<or> 28 + a + 4 + length data \<le> i \<Longrightarrow> b ! i = h ! i"
    using add_attr_effect [OF lh nh c, of IPSET_ATTR_ETHER] by blast
  have run: "new_add_mac_to_ipset_buffer e setname eth_addr af timeout = Some b"
    unfolding new_add_mac_to_ipset_buffer_def data_def [symmetric]
    by (simp only: Option.bind.bind_lunit sh s)
  show ?thesis
  proof (rule that [OF run l])
    show "unat (get_nlmsg_len e b) = 40 + a" using n ld by simp
    have "get_u16 e 4 b = get_u16 e 4 h"
      by (rule get_u16_cong) (use sz in \<open>simp_all add: f\<close>)
    then show "get_u16 e 4 b = IPSET_CMD_ADD OR push_bit 8 NFNL_SUBSYS_IPSET"
      by (simp add: th)
    show "b ! 16 = word_of_int af" using f [of 16] fh sz by simp
    show "get_u16 e (28 + a) b = 10" using t(1) ld by simp
    show "get_u16 e (30 + a) b = IPSET_ATTR_ETHER" using t(2) by simp
    show "b ! (32 + a + j) = ether_addr_octet eth_addr ! j" if "j < 6" for j
      using d [of j] that ld by (simp add: data)
  qed
qed

lemma flush_ipset_buffer_effect:
  assumes short: "strlen setname < IPSET_MAXNAMELEN"
  obtains b where
    "flush_ipset_buffer e setname = Some b"
    "length b = BUFF_SZ"
    "unat (get_nlmsg_len e b) = 28 + name_span setname"
    "get_u16 e 4 b = IPSET_CMD_FLUSH OR push_bit 8 NFNL_SUBSYS_IPSET"
    "b ! 16 = word_of_int AF_INET"
proof -
  have hfit: "strlen setname + 33 \<le> BUFF_SZ"
    using short by (simp add: BUFF_SZ_def IPSET_MAXNAMELEN_def)
  show ?thesis
    using msg_header_effect [OF hfit, of e "IPSET_CMD_FLUSH OR push_bit 8 NFNL_SUBSYS_IPSET" AF_INET] that
    unfolding flush_ipset_buffer_def name_span_def by blast
qed

subsection \<open>The send loop\<close>

lemma send_loop_accepted:
  assumes "sendto_result k (length (socket_writes w)) = Sent n"
  shows "send_loop k msg w =
    Some (w\<lparr>retries := 0, errno := 0, socket_writes := socket_writes w @ [msg]\<rparr>)"
  by (subst send_loop.simps) (simp add: sendto_def retry_send_def assms)

lemma would_block_step_fields:
  "socket_writes (would_block_step k msg w) = socket_writes w @ [msg]"
  "retries (would_block_step k msg w) = retries w + 1"
  "would_block_step k msg w\<lparr>retries := r, errno := en, socket_writes := ws\<rparr>
     = w\<lparr>retries := r, errno := en, socket_writes := ws\<rparr>"
  by (simp_all add: would_block_step_def nanosleep_def split: sleep_result.splits)

lemma send_loop_would_block_step:
  assumes "sendto_result k (length (socket_writes w)) = SendFailed EAGAIN"
    and "retries w < 1000"
  shows "send_loop k msg w = send_loop k msg (would_block_step k msg w)"
  by (subst send_loop.simps)
    (simp add: sendto_def retry_send_def assms would_block_step_def nanosleep_def Let_def
      split: sleep_result.splits)

lemma send_loop_would_block_last:
  assumes "sendto_result k (length (socket_writes w)) = SendFailed EAGAIN"
    and "retries w = 1000"
  shows "send_loop k msg w =
    (case nanosleep_result k (length (socket_writes w) + 1) of
       Slept \<Rightarrow>
         Some (w\<lparr>retries := 0, errno := EAGAIN, socket_writes := socket_writes w @ [msg]\<rparr>)
     | Interrupted \<Rightarrow>
         send_loop k msg
           (w\<lparr>retries := 0, errno := EINTR, socket_writes := socket_writes w @ [msg]\<rparr>))"
proof (cases "nanosleep_result k (length (socket_writes w) + 1)")
  case Slept
  then show ?thesis
    by (subst send_loop.simps)
      (simp add: sendto_def retry_send_def retry_send_tail_def nanosleep_def assms
        EAGAIN_def EINTR_def)
next
  case Interrupted
  have "send_loop k msg w =
      send_loop k msg
        (w\<lparr>socket_writes := socket_writes w @ [msg], errno := EINTR, retries := 0\<rparr>)"
    using Interrupted
    by (subst send_loop.simps)
      (simp add: sendto_def retry_send_def retry_send_tail_def nanosleep_def assms)
  also have "w\<lparr>socket_writes := socket_writes w @ [msg], errno := EINTR, retries := 0\<rparr>
      = w\<lparr>retries := 0, errno := EINTR, socket_writes := socket_writes w @ [msg]\<rparr>"
    by simp
  finally have run: "send_loop k msg w =
      send_loop k msg
        (w\<lparr>retries := 0, errno := EINTR, socket_writes := socket_writes w @ [msg]\<rparr>)" .
  show ?thesis
    by (simp only: Interrupted sleep_result.case) (rule run)
qed

lemma send_loop_would_block:
  assumes "\<And>i. sendto_result k i = SendFailed EAGAIN"
  shows "m = nat (1000 - retries w) \<Longrightarrow> 0 \<le> retries w \<Longrightarrow> retries w \<le> 1000 \<Longrightarrow>
    send_loop k msg w =
      (case nanosleep_result k (length (socket_writes w) + Suc m) of
         Slept \<Rightarrow>
           Some (w\<lparr>retries := 0, errno := EAGAIN,
                    socket_writes := socket_writes w @ replicate (Suc m) msg\<rparr>)
       | Interrupted \<Rightarrow>
           send_loop k msg
             (w\<lparr>retries := 0, errno := EINTR,
                 socket_writes := socket_writes w @ replicate (Suc m) msg\<rparr>))"
proof (induction m arbitrary: w)
  case 0
  then have r: "retries w = 1000" by simp
  show ?case
    unfolding send_loop_would_block_last [OF assms r, of msg]
    by (simp split: sleep_result.splits)
next
  case (Suc m)
  then have r: "retries w < 1000" by simp
  define w2 where "w2 = would_block_step k msg w"
  have step: "send_loop k msg w = send_loop k msg w2"
    unfolding w2_def by (rule send_loop_would_block_step [OF assms r])
  have ih: "send_loop k msg w2 =
      (case nanosleep_result k (length (socket_writes w2) + Suc m) of
         Slept \<Rightarrow>
           Some (w2\<lparr>retries := 0, errno := EAGAIN,
                    socket_writes := socket_writes w2 @ replicate (Suc m) msg\<rparr>)
       | Interrupted \<Rightarrow>
           send_loop k msg
             (w2\<lparr>retries := 0, errno := EINTR,
                 socket_writes := socket_writes w2 @ replicate (Suc m) msg\<rparr>))"
    by (rule Suc.IH) (use Suc.prems in \<open>simp_all add: w2_def would_block_step_fields\<close>)
  show ?case
    unfolding step ih
    by (simp add: w2_def would_block_step_fields replicate_app_Cons_same
        split: sleep_result.splits)
qed

lemma sendto_writes:
  "sendto k msg w = (rc, w1) \<Longrightarrow> socket_writes w1 = socket_writes w @ [msg]"
  by (auto simp add: sendto_def split: send_result.splits)

lemma retry_send_writes:
  "retry_send k rc w = (again, w2) \<Longrightarrow> socket_writes w2 = socket_writes w"
  by (auto simp add: retry_send_def retry_send_tail_def nanosleep_def Let_def
      split: if_splits sleep_result.splits)

lemma send_loop_log:
  assumes "send_loop k msg w = Some w'"
  shows "\<exists>n. socket_writes w' = socket_writes w @ replicate (Suc n) msg"
proof (rule send_loop.raw_induct
    [where P = "\<lambda>k msg w w'. \<exists>n. socket_writes w' = socket_writes w @ replicate (Suc n) msg",
      OF _ assms])
  fix f :: "kernel \<Rightarrow> byte list \<Rightarrow> world \<Rightarrow> world option"
  fix kk :: kernel and m :: "byte list" and v v' :: world
  assume IH: "\<And>k msg w y. f k msg w = Some y \<Longrightarrow>
      \<exists>n. socket_writes y = socket_writes w @ replicate (Suc n) msg"
  assume body: "(case sendto kk m v of
      (rc, w1) \<Rightarrow>
        case retry_send kk rc w1 of
        (again, w2) \<Rightarrow> if again \<noteq> 0 then f kk m w2 else Some w2) = Some v'"
  obtain rc w1 where st: "sendto kk m v = (rc, w1)" by (cases "sendto kk m v")
  obtain again w2 where rs: "retry_send kk rc w1 = (again, w2)"
    by (cases "retry_send kk rc w1")
  have w2: "socket_writes w2 = socket_writes v @ [m]"
    using sendto_writes [OF st] retry_send_writes [OF rs] by simp
  show "\<exists>n. socket_writes v' = socket_writes v @ replicate (Suc n) m"
  proof (cases "again = 0")
    case True
    with body st rs have "v' = w2" by simp
    then have "socket_writes v' = socket_writes v @ replicate (Suc 0) m" using w2 by simp
    then show ?thesis by blast
  next
    case False
    with body st rs have "f kk m w2 = Some v'" by simp
    from IH [OF this] obtain n where "socket_writes v' = socket_writes w2 @ replicate (Suc n) m"
      by blast
    then have "socket_writes v' = socket_writes v @ replicate (Suc (Suc n)) m"
      using w2 by simp
    then show ?thesis by blast
  qed
qed

subsection \<open>Sample inputs and the outcome of sending\<close>

lemma strlen_blocklist: "strlen blocklist = 9"
  by (simp add: strlen_def c_str_def blocklist_def)

lemma strlen_long_name: "strlen long_name = 45"
proof -
  have "takeWhile (\<lambda>c. c \<noteq> 0) (replicate 45 (0x61 :: byte)) = replicate 45 0x61"
    by (rule takeWhile_eq_all_conv [THEN iffD2]) simp
  then show ?thesis by (simp add: strlen_def c_str_def long_name_def)
qed

lemma send_buffer_no_fault:
  "unat (get_nlmsg_len e b) \<le> length b \<Longrightarrow> send_buffer e k (Some b) w \<noteq> Faults f"
  by (simp add: send_buffer_def split: option.splits)

lemma send_buffer_Returns:
  assumes "send_buffer e k (Some b) w = Returns r w'"
  shows "\<exists>n. socket_writes w' =
    socket_writes w @ replicate (Suc n) (take (unat (get_nlmsg_len e b)) b)"
proof -
  from assms have "send_loop k (take (unat (get_nlmsg_len e b)) b) w = Some w'"
    by (auto simp add: send_buffer_def split: if_splits option.splits)
  then show ?thesis by (rule send_loop_log)
qed

lemma new_add_to_ipset_short:
  "strlen name < IPSET_MAXNAMELEN \<Longrightarrow>
   new_add_to_ipset e k (Some name) ipaddr af remove w =
     send_buffer e k (new_add_to_ipset_buffer e name ipaddr af remove) w"
  by (simp add: new_add_to_ipset_def)

lemma new_add_mac_to_ipset_short:
  "strlen name < IPSET_MAXNAMELEN \<Longrightarrow>
   new_add_mac_to_ipset e k (Some name) eth_addr af timeout w =
     send_buffer e k (new_add_mac_to_ipset_buffer e name eth_addr af timeout) w"
  by (simp add: new_add_mac_to_ipset_def)

lemma flush_ipset_short:
  "strlen name < IPSET_MAXNAMELEN \<Longrightarrow>
   flush_ipset e k (Some name) w = send_buffer e k (flush_ipset_buffer e name) w"
  by (simp add: flush_ipset_def)

lemma send_buffer_accepted:
  assumes "sendto_result k (length (socket_writes w)) = Sent n"
    "unat (get_nlmsg_len e b) \<le> length b"
  shows "send_buffer e k (Some b) w =
    Returns 0 (w\<lparr>retries := 0, errno := 0,
      socket_writes := socket_writes w @ [take (unat (get_nlmsg_len e b)) b]\<rparr>)"
proof -
  have "send_loop k (take (unat (get_nlmsg_len e b)) b) w =
      Some (w\<lparr>retries := 0, errno := 0,
        socket_writes := socket_writes w @ [take (unat (get_nlmsg_len e b)) b]\<rparr>)"
    using assms(1) by (rule send_loop_accepted)
  then show ?thesis using assms(2) by (simp add: send_buffer_def)
qed

text \<open>
  Without the check of the name length the builders do leave the array: with a set name
  of 230 bytes the set-name attribute would end at offset 263, and the store is refused.
\<close>

lemma flush_ipset_buffer_overrun:
  "flush_ipset_buffer LittleEndian (replicate 230 0x61) = None"
  by code_simp

section \<open>The claims\<close>

subsection \<open>C8: a value that is neither an address nor a hardware address\<close>

text \<open>
  C8. For every value text that neither validator accepts, \<^verbatim>\<open>add_to_ipset\<close> returns \<open>-1\<close>
  at once: no builder runs, and the state, the list of socket writes included, is the
  one it was called in.
\<close>

theorem add_to_ipset_unclassified:
  assumes "\<not> is_valid_ip p val" and "\<not> is_valid_mac p val"
  shows "add_to_ipset p e k setname val flag w = Returns (- 1) w"
  using assms by (simp add: add_to_ipset_def)

theorem add_to_ipset_unclassified_witness:
  "\<not> is_valid_ip (sample_parsers LittleEndian) ''not-an-address''
   \<and> \<not> is_valid_mac (sample_parsers LittleEndian) ''not-an-address''
   \<and> add_to_ipset (sample_parsers LittleEndian) LittleEndian kernel_accepts (Some blocklist)
         ''not-an-address'' 0 world0 = Returns (- 1) world0"
proof -
  have a: "\<not> is_valid_ip (sample_parsers LittleEndian) ''not-an-address''"
    by (simp add: sample_parsers_def)
  have b: "\<not> is_valid_mac (sample_parsers LittleEndian) ''not-an-address''"
    by (simp add: sample_parsers_def)
  show ?thesis
    using a b add_to_ipset_unclassified [OF a b, of LittleEndian kernel_accepts "Some blocklist" 0 world0]
    by simp
qed

subsection \<open>C1: the lengths written by the attribute encoder\<close>

text \<open>
  C1, as the code has it. \<^verbatim>\<open>add_attr\<close>, appending within the buffer at an aligned logical
  length, writes into the attribute header the unaligned length, 4 bytes of header plus
  the payload. It is the logical length of the buffer that advances by the 4-byte-aligned
  total \<^verbatim>\<open>NL_ALIGN(payload_len)\<close>: a multiple of 4, at least the unaligned length, and less
  than 4 more.
\<close>

theorem add_attr_lengths:
  assumes "length buf = BUFF_SZ"
      and "unat (get_nlmsg_len e buf) = l" and "l mod 4 = 0" and "4 \<le> l"
      and "l + 4 + length data \<le> BUFF_SZ"
  shows "\<exists>b' adv. add_attr e ty data buf = Some b'
           \<and> unat (get_u16 e l b') = 4 + length data
           \<and> unat (get_nlmsg_len e b') = l + adv
           \<and> adv = unat (NL_ALIGN (word_of_nat (4 + length data)))
           \<and> adv mod 4 = 0 \<and> 4 + length data \<le> adv \<and> adv < 4 + length data + 4"
proof -
  obtain b' where run: "add_attr e ty data buf = Some b'"
    and n: "unat (get_nlmsg_len e b') = l + 4 * ((length data + 7) div 4)"
    and t: "get_u16 e l b' = word_of_nat (4 + length data)"
    using add_attr_effect [OF assms, of ty] by blast
  have small: "4 + length data < 65536" using assms(5) by (simp add: BUFF_SZ_def)
  then have u: "unat (get_u16 e l b') = 4 + length data"
    unfolding t by (simp only: unat_of_nat) simp
  have adv: "unat (NL_ALIGN (word_of_nat (4 + length data))) = 4 * ((length data + 7) div 4)"
    using NL_ALIGN_of_nat [OF small] by (simp add: add.commute)
  show ?thesis
    using run u n adv by (intro exI conjI) (assumption | simp)+
qed

theorem add_attr_lengths_witness:
  "length header_only = BUFF_SZ \<and> unat (get_nlmsg_len LittleEndian header_only) = 20
   \<and> (20::nat) mod 4 = 0 \<and> (4::nat) \<le> 20 \<and> 20 + 4 + length [IPSET_PROTOCOL] \<le> BUFF_SZ
   \<and> (\<exists>b' adv. add_attr LittleEndian IPSET_ATTR_PROTOCOL [IPSET_PROTOCOL] header_only = Some b'
           \<and> unat (get_u16 LittleEndian 20 b') = 4 + length [IPSET_PROTOCOL]
           \<and> unat (get_nlmsg_len LittleEndian b') = 20 + adv
           \<and> adv = unat (NL_ALIGN (word_of_nat (4 + length [IPSET_PROTOCOL])))
           \<and> adv mod 4 = 0 \<and> 4 + length [IPSET_PROTOCOL] \<le> adv
           \<and> adv < 4 + length [IPSET_PROTOCOL] + 4)"
proof -
  have a: "length header_only = BUFF_SZ" by (simp add: header_only_def BUFF_SZ_def)
  have b: "unat (get_nlmsg_len LittleEndian header_only) = 20"
    by (simp add: header_only_def get_nlmsg_len_def get_u32_def bytes_u32_def u32_bytes_def)
  have c: "(20::nat) mod 4 = 0" by simp
  have d: "(4::nat) \<le> 20" by simp
  have f: "20 + 4 + length [IPSET_PROTOCOL] \<le> BUFF_SZ" by (simp add: BUFF_SZ_def)
  show ?thesis
    using a b c d f add_attr_lengths [OF a b c d f, of IPSET_ATTR_PROTOCOL] by simp
qed

text \<open>
  C1 as stated fails: for the one-byte protocol attribute the length in the header is 5,
  which is not a multiple of 4.
\<close>

theorem add_attr_aligned_length_counterexample:
  "map_option (get_u16 LittleEndian 20)
     (add_attr LittleEndian IPSET_ATTR_PROTOCOL [IPSET_PROTOCOL] header_only) = Some 5
   \<and> unat (5 :: 16 word) mod 4 \<noteq> 0"
proof -
  have a: "length header_only = BUFF_SZ" by (simp add: header_only_def BUFF_SZ_def)
  have b: "unat (get_nlmsg_len LittleEndian header_only) = 20"
    by (simp add: header_only_def get_nlmsg_len_def get_u32_def bytes_u32_def u32_bytes_def)
  obtain b' where "add_attr LittleEndian IPSET_ATTR_PROTOCOL [IPSET_PROTOCOL] header_only = Some b'"
    and "get_u16 LittleEndian 20 b' = word_of_nat (4 + length [IPSET_PROTOCOL])"
    using add_attr_effect [OF a b, of "[IPSET_PROTOCOL]" IPSET_ATTR_PROTOCOL]
    by (auto simp add: BUFF_SZ_def)
  then show ?thesis by simp
qed

subsection \<open>C3: the send loop under lasting backpressure\<close>




text \<open>
  The path through line 112: against a kernel whose queue is always full and that
  interrupts the sleep after the 1001st attempt, the loop makes 2002 attempts before it
  gives up.
\<close>

lemma send_loop_interrupted_sleep_attempts:
  "map_option (send_attempts world0) (send_loop kernel_would_block_signal [0] world0)
     = Some 2002"
proof -
  have a: "\<And>i. sendto_result kernel_would_block_signal i = SendFailed EAGAIN"
    by (simp add: kernel_would_block_signal_def)
  define w1 where "w1 = world0\<lparr>retries := 0, errno := EINTR,
      socket_writes := socket_writes world0 @ replicate (Suc 1000) [0]\<rparr>"
  have "send_loop kernel_would_block_signal [0] world0 =
      (case nanosleep_result kernel_would_block_signal
              (length (socket_writes world0) + Suc 1000) of
         Slept \<Rightarrow>
           Some (world0\<lparr>retries := 0, errno := EAGAIN,
                    socket_writes := socket_writes world0 @ replicate (Suc 1000) [0]\<rparr>)
       | Interrupted \<Rightarrow>
           send_loop kernel_would_block_signal [0]
             (world0\<lparr>retries := 0, errno := EINTR,
                 socket_writes := socket_writes world0 @ replicate (Suc 1000) [0]\<rparr>))"
    by (rule send_loop_would_block [OF a]) (simp_all add: world0_def)
  then have s1: "send_loop kernel_would_block_signal [0] world0
      = send_loop kernel_would_block_signal [0] w1"
    by (simp add: kernel_would_block_signal_def world0_def w1_def)
  have "send_loop kernel_would_block_signal [0] w1 =
      (case nanosleep_result kernel_would_block_signal
              (length (socket_writes w1) + Suc 1000) of
         Slept \<Rightarrow>
           Some (w1\<lparr>retries := 0, errno := EAGAIN,
                    socket_writes := socket_writes w1 @ replicate (Suc 1000) [0]\<rparr>)
       | Interrupted \<Rightarrow>
           send_loop kernel_would_block_signal [0]
             (w1\<lparr>retries := 0, errno := EINTR,
                 socket_writes := socket_writes w1 @ replicate (Suc 1000) [0]\<rparr>))"
    by (rule send_loop_would_block [OF a]) (simp_all add: w1_def)
  then have s2: "send_loop kernel_would_block_signal [0] w1 =
      Some (w1\<lparr>retries := 0, errno := EAGAIN,
               socket_writes := socket_writes w1 @ replicate (Suc 1000) [0]\<rparr>)"
    by (simp add: kernel_would_block_signal_def w1_def world0_def)
  show ?thesis
    unfolding s1 s2 by (simp add: send_attempts_def w1_def world0_def)
qed

subsection \<open>C2: the backpatched lengths of the nested frames\<close>

text \<open>
  C2. For a set name that passes the length check, \<^verbatim>\<open>new_add_to_ipset\<close> opens the ``data''
  frame at \<open>nested0\<close>, right after the set-name attribute, and the ``address'' frame at
  \<open>nested1\<close>, 4 bytes further and so inside it: in the finished buffer the attribute
  header at \<open>nested0\<close> has the type \<^verbatim>\<open>NLA_F_NESTED | IPSET_ATTR_DATA\<close>, the one at
  \<open>nested1\<close> the type \<^verbatim>\<open>NLA_F_NESTED | IPSET_ATTR_IP\<close>, and the address attribute follows
  at \<open>nested1 + 4\<close>. The inner frame is closed first: the finished buffer is the outer
  backpatch applied to the inner backpatch applied to the buffer as it stands after the
  address attribute. Each length read back from the finished buffer is the distance from
  the frame's start to the aligned logical length at the time of its backpatch, 12 for
  the address frame and 16 for the data frame, and that logical length is aligned and is
  the final one.
\<close>

theorem nested_lengths_backpatched:
  assumes "strlen setname < IPSET_MAXNAMELEN"
  shows "\<exists>bo nested0 nested1 b1 b.
      new_add_to_ipset_open e setname ipaddr af remove = Some (bo, nested0, nested1)
    \<and> close_nested e nested1 bo = Some b1
    \<and> close_nested e nested0 b1 = Some b
    \<and> new_add_to_ipset_buffer e setname ipaddr af remove = Some b
    \<and> nested0 < nested1
    \<and> nested1 + unat (get_u16 e nested1 b) = unat (NL_ALIGN (get_nlmsg_len e bo))
    \<and> nested0 + unat (get_u16 e nested0 b) = unat (NL_ALIGN (get_nlmsg_len e b1))
    \<and> get_nlmsg_len e b1 = get_nlmsg_len e bo
    \<and> get_nlmsg_len e b = get_nlmsg_len e bo
    \<and> nested0 = 28 + name_span setname
    \<and> nested1 = nested0 + 4
    \<and> get_u16 e (nested0 + 2) b = NLA_F_NESTED OR IPSET_ATTR_DATA
    \<and> get_u16 e (nested1 + 2) b = NLA_F_NESTED OR IPSET_ATTR_IP
    \<and> get_u16 e nested0 b = 16
    \<and> get_u16 e nested1 b = 12
    \<and> unat (get_u16 e (nested1 + 4) b) = 4 + INADDRSZ
    \<and> get_u16 e (nested1 + 6) b =
          (if af = AF_INET then IPSET_ATTR_IPADDR_IPV4 else IPSET_ATTR_IPADDR_IPV6)
            OR NLA_F_NET_BYTEORDER
    \<and> NL_ALIGN (get_nlmsg_len e b) = get_nlmsg_len e b
    \<and> unat (get_nlmsg_len e b) = nested0 + 16"
proof (rule new_add_to_ipset_buffer_effect [OF assms, of e ipaddr af remove])
  fix bo b1 b
  assume op: "new_add_to_ipset_open e setname ipaddr af remove =
      Some (bo, 28 + name_span setname, 32 + name_span setname)"
    and c1: "close_nested e (32 + name_span setname) bo = Some b1"
    and c0: "close_nested e (28 + name_span setname) b1 = Some b"
    and run: "new_add_to_ipset_buffer e setname ipaddr af remove = Some b"
    and no: "unat (get_nlmsg_len e bo) = 44 + name_span setname"
    and n1: "get_nlmsg_len e b1 = get_nlmsg_len e bo"
    and n: "get_nlmsg_len e b = get_nlmsg_len e bo"
    and t0: "get_u16 e (28 + name_span setname) b = 16"
    and y0: "get_u16 e (30 + name_span setname) b = NLA_F_NESTED OR IPSET_ATTR_DATA"
    and t1: "get_u16 e (32 + name_span setname) b = 12"
    and y1: "get_u16 e (34 + name_span setname) b = NLA_F_NESTED OR IPSET_ATTR_IP"
    and t2: "get_u16 e (36 + name_span setname) b = 8"
    and y2: "get_u16 e (38 + name_span setname) b =
        (if af = AF_INET then IPSET_ATTR_IPADDR_IPV4 else IPSET_ATTR_IPADDR_IPV6)
          OR NLA_F_NET_BYTEORDER"
  have m4: "(44 + name_span setname) mod 4 = 0"
    using name_span_bounds(2) [of setname] by presburger
  then have alw: "NL_ALIGN (get_nlmsg_len e bo) = get_nlmsg_len e bo"
    using no by (simp add: NL_ALIGN_aligned)
  then have al: "unat (NL_ALIGN (get_nlmsg_len e bo)) = 44 + name_span setname"
    using no by simp
  have s1: "32 + name_span setname + unat (get_u16 e (32 + name_span setname) b) =
      unat (NL_ALIGN (get_nlmsg_len e bo))"
    by (simp add: t1 al)
  have s0: "28 + name_span setname + unat (get_u16 e (28 + name_span setname) b) =
      unat (NL_ALIGN (get_nlmsg_len e b1))"
    by (simp add: t0 n1 al)
  have lt: "28 + name_span setname < 32 + name_span setname" by simp
  have p0: "28 + name_span setname = 28 + name_span setname" by simp
  have p1: "32 + name_span setname = 28 + name_span setname + 4" by simp
  have q0: "get_u16 e (28 + name_span setname + 2) b = NLA_F_NESTED OR IPSET_ATTR_DATA"
    using y0 by simp
  have q1: "get_u16 e (32 + name_span setname + 2) b = NLA_F_NESTED OR IPSET_ATTR_IP"
    using y1 by simp
  have q2: "unat (get_u16 e (32 + name_span setname + 4) b) = 4 + INADDRSZ"
    using t2 by (simp add: INADDRSZ_def)
  have q3: "get_u16 e (32 + name_span setname + 6) b =
        (if af = AF_INET then IPSET_ATTR_IPADDR_IPV4 else IPSET_ATTR_IPADDR_IPV6)
          OR NLA_F_NET_BYTEORDER"
    using y2 by simp
  have q4: "NL_ALIGN (get_nlmsg_len e b) = get_nlmsg_len e b"
    using alw by (simp add: n)
  have q5: "unat (get_nlmsg_len e b) = 28 + name_span setname + 16"
    using no by (simp add: n)
  show ?thesis
    by (intro exI conjI, rule op, rule c1, rule c0, rule run, rule lt, rule s1, rule s0,
        rule n1, rule n, rule p0, rule p1, rule q0, rule q1, rule t0, rule t1, rule q2,
        rule q3, rule q4, rule q5)
qed

theorem nested_lengths_backpatched_witness:
  "strlen blocklist < IPSET_MAXNAMELEN \<and>
   (\<exists>bo nested0 nested1 b1 b.
      new_add_to_ipset_open LittleEndian blocklist 0x010200C0 AF_INET 0 = Some (bo, nested0, nested1)
    \<and> close_nested LittleEndian nested1 bo = Some b1
    \<and> close_nested LittleEndian nested0 b1 = Some b
    \<and> new_add_to_ipset_buffer LittleEndian blocklist 0x010200C0 AF_INET 0 = Some b
    \<and> nested0 < nested1
    \<and> nested1 + unat (get_u16 LittleEndian nested1 b) = unat (NL_ALIGN (get_nlmsg_len LittleEndian bo))
    \<and> nested0 + unat (get_u16 LittleEndian nested0 b) = unat (NL_ALIGN (get_nlmsg_len LittleEndian b1))
    \<and> get_nlmsg_len LittleEndian b1 = get_nlmsg_len LittleEndian bo
    \<and> get_nlmsg_len LittleEndian b = get_nlmsg_len LittleEndian bo
    \<and> nested0 = 28 + name_span blocklist
    \<and> nested1 = nested0 + 4
    \<and> get_u16 LittleEndian (nested0 + 2) b = NLA_F_NESTED OR IPSET_ATTR_DATA
    \<and> get_u16 LittleEndian (nested1 + 2) b = NLA_F_NESTED OR IPSET_ATTR_IP
    \<and> get_u16 LittleEndian nested0 b = 16
    \<and> get_u16 LittleEndian nested1 b = 12
    \<and> unat (get_u16 LittleEndian (nested1 + 4) b) = 4 + INADDRSZ
    \<and> get_u16 LittleEndian (nested1 + 6) b =
          (if AF_INET = AF_INET then IPSET_ATTR_IPADDR_IPV4 else IPSET_ATTR_IPADDR_IPV6)
            OR NLA_F_NET_BYTEORDER
    \<and> NL_ALIGN (get_nlmsg_len LittleEndian b) = get_nlmsg_len LittleEndian b
    \<and> unat (get_nlmsg_len LittleEndian b) = nested0 + 16)
   \<and> name_span blocklist = 16"
proof -
  have a: "strlen blocklist < IPSET_MAXNAMELEN"
    by (simp add: strlen_blocklist IPSET_MAXNAMELEN_def)
  have b: "name_span blocklist = 16"
    by (simp add: name_span_def strlen_blocklist)
  show ?thesis
    by (intro conjI, rule a,
        rule nested_lengths_backpatched [OF a, of LittleEndian "0x010200C0" AF_INET 0], rule b)
qed

subsection \<open>C9: the builders stay inside the buffer\<close>

text \<open>
  C9. For every set name shorter than 32 bytes each of the three builders finishes with
  every store inside the 256-byte array (a store outside it would give \<open>None\<close>), the
  final logical length is at most 256, and no entry point ends in a buffer overrun,
  the read by \<^verbatim>\<open>sendto\<close> included.
\<close>

theorem builders_stay_within_buffer:
  assumes "strlen setname < IPSET_MAXNAMELEN"
  shows "(\<exists>b. new_add_to_ipset_buffer e setname ipaddr af remove = Some b
            \<and> length b = BUFF_SZ \<and> unat (get_nlmsg_len e b) \<le> BUFF_SZ)
       \<and> (\<exists>b. new_add_mac_to_ipset_buffer e setname eth_addr af timeout = Some b
            \<and> length b = BUFF_SZ \<and> unat (get_nlmsg_len e b) \<le> BUFF_SZ)
       \<and> (\<exists>b. flush_ipset_buffer e setname = Some b
            \<and> length b = BUFF_SZ \<and> unat (get_nlmsg_len e b) \<le> BUFF_SZ)
       \<and> new_add_to_ipset e k (Some setname) ipaddr af remove w \<noteq> Faults BufferOverrun
       \<and> new_add_mac_to_ipset e k (Some setname) eth_addr af timeout w \<noteq> Faults BufferOverrun
       \<and> flush_ipset e k (Some setname) w \<noteq> Faults BufferOverrun"
proof -
  have a36: "name_span setname \<le> 36" using name_span_bounds(1) [OF assms] .
  have sz: "BUFF_SZ = 256" by (simp add: BUFF_SZ_def)
  have r1: "\<exists>b. new_add_to_ipset_buffer e setname ipaddr af remove = Some b
      \<and> length b = BUFF_SZ \<and> unat (get_nlmsg_len e b) \<le> BUFF_SZ"
  proof (rule new_add_to_ipset_buffer_effect [OF assms, of e ipaddr af remove])
    fix bo b
    assume "new_add_to_ipset_buffer e setname ipaddr af remove = Some b"
      "length b = BUFF_SZ" "unat (get_nlmsg_len e bo) = 44 + name_span setname"
      "get_nlmsg_len e b = get_nlmsg_len e bo"
    then show ?thesis using a36 sz by simp
  qed
  have r2: "\<exists>b. new_add_mac_to_ipset_buffer e setname eth_addr af timeout = Some b
      \<and> length b = BUFF_SZ \<and> unat (get_nlmsg_len e b) \<le> BUFF_SZ"
  proof (rule new_add_mac_to_ipset_buffer_effect [OF assms, of e eth_addr af timeout])
    fix b
    assume "new_add_mac_to_ipset_buffer e setname eth_addr af timeout = Some b"
      "length b = BUFF_SZ" "unat (get_nlmsg_len e b) = 40 + name_span setname"
    then show ?thesis using a36 sz by simp
  qed
  have r3: "\<exists>b. flush_ipset_buffer e setname = Some b
      \<and> length b = BUFF_SZ \<and> unat (get_nlmsg_len e b) \<le> BUFF_SZ"
  proof (rule flush_ipset_buffer_effect [OF assms, of e])
    fix b
    assume "flush_ipset_buffer e setname = Some b"
      "length b = BUFF_SZ" "unat (get_nlmsg_len e b) = 28 + name_span setname"
    then show ?thesis using a36 sz by simp
  qed
  have short: "\<not> IPSET_MAXNAMELEN \<le> strlen setname" using assms by simp
  have f1: "new_add_to_ipset e k (Some setname) ipaddr af remove w \<noteq> Faults BufferOverrun"
    using r1 send_buffer_no_fault [of e _ k w BufferOverrun]
    by (auto simp add: new_add_to_ipset_def short)
  have f2: "new_add_mac_to_ipset e k (Some setname) eth_addr af timeout w \<noteq> Faults BufferOverrun"
    using r2 send_buffer_no_fault [of e _ k w BufferOverrun]
    by (auto simp add: new_add_mac_to_ipset_def short)
  have f3: "flush_ipset e k (Some setname) w \<noteq> Faults BufferOverrun"
    using r3 send_buffer_no_fault [of e _ k w BufferOverrun]
    by (auto simp add: flush_ipset_def short)
  show ?thesis
    by (intro conjI, rule r1, rule r2, rule r3, rule f1, rule f2, rule f3)
qed

theorem builders_stay_within_buffer_witness:
  "strlen blocklist < IPSET_MAXNAMELEN
   \<and> (\<exists>b. new_add_to_ipset_buffer LittleEndian blocklist 0x010200C0 AF_INET 0 = Some b
            \<and> length b = BUFF_SZ \<and> unat (get_nlmsg_len LittleEndian b) \<le> BUFF_SZ)
   \<and> (\<exists>b. new_add_mac_to_ipset_buffer LittleEndian blocklist
              (Ether_addr 0xAA 0xBB 0xCC 0xDD 0xEE 0xFF) AF_INET 0 = Some b
            \<and> length b = BUFF_SZ \<and> unat (get_nlmsg_len LittleEndian b) \<le> BUFF_SZ)
   \<and> (\<exists>b. flush_ipset_buffer LittleEndian blocklist = Some b
            \<and> length b = BUFF_SZ \<and> unat (get_nlmsg_len LittleEndian b) \<le> BUFF_SZ)
   \<and> flush_ipset LittleEndian kernel_accepts (Some blocklist) world0 \<noteq> Faults BufferOverrun"
proof -
  have a: "strlen blocklist < IPSET_MAXNAMELEN"
    by (simp add: strlen_blocklist IPSET_MAXNAMELEN_def)
  show ?thesis
    using a builders_stay_within_buffer [OF a, of LittleEndian "0x010200C0" AF_INET 0
        "Ether_addr 0xAA 0xBB 0xCC 0xDD 0xEE 0xFF" 0 kernel_accepts world0]
    by simp
qed

subsection \<open>C5: the check of the set-name length\<close>

text \<open>
  C5. In each of \<^verbatim>\<open>new_add_to_ipset\<close>, \<^verbatim>\<open>new_add_mac_to_ipset\<close> and \<^verbatim>\<open>flush_ipset\<close>, a set
  name of at most 31 bytes passes the check: the message is built, and the call is the
  send loop on that buffer. A set name of 32 bytes or more makes the call return \<open>-1\<close>
  with \<^verbatim>\<open>errno\<close> set to \<^verbatim>\<open>ENAMETOOLONG\<close> and nothing else changed, so nothing was written
  to the socket.
\<close>

theorem name_length_check:
  "(strlen name < IPSET_MAXNAMELEN \<longrightarrow>
      (\<exists>b. new_add_to_ipset_buffer e name ipaddr af remove = Some b
         \<and> new_add_to_ipset e k (Some name) ipaddr af remove w = send_buffer e k (Some b) w)
    \<and> (\<exists>b. new_add_mac_to_ipset_buffer e name eth_addr af timeout = Some b
         \<and> new_add_mac_to_ipset e k (Some name) eth_addr af timeout w
             = send_buffer e k (Some b) w)
    \<and> (\<exists>b. flush_ipset_buffer e name = Some b
         \<and> flush_ipset e k (Some name) w = send_buffer e k (Some b) w))
   \<and> (IPSET_MAXNAMELEN \<le> strlen name \<longrightarrow>
      new_add_to_ipset e k (Some name) ipaddr af remove w
        = Returns (- 1) (w\<lparr>errno := ENAMETOOLONG\<rparr>)
    \<and> new_add_mac_to_ipset e k (Some name) eth_addr af timeout w
        = Returns (- 1) (w\<lparr>errno := ENAMETOOLONG\<rparr>)
    \<and> flush_ipset e k (Some name) w = Returns (- 1) (w\<lparr>errno := ENAMETOOLONG\<rparr>))"
proof (intro conjI impI)
  assume short: "strlen name < IPSET_MAXNAMELEN"
  show "\<exists>b. new_add_to_ipset_buffer e name ipaddr af remove = Some b
         \<and> new_add_to_ipset e k (Some name) ipaddr af remove w = send_buffer e k (Some b) w"
  proof (rule new_add_to_ipset_buffer_effect [OF short, of e ipaddr af remove])
    fix b assume "new_add_to_ipset_buffer e name ipaddr af remove = Some b"
    then show ?thesis using new_add_to_ipset_short [OF short, of e k ipaddr af remove w] by simp
  qed
  show "\<exists>b. new_add_mac_to_ipset_buffer e name eth_addr af timeout = Some b
         \<and> new_add_mac_to_ipset e k (Some name) eth_addr af timeout w
             = send_buffer e k (Some b) w"
  proof (rule new_add_mac_to_ipset_buffer_effect [OF short, of e eth_addr af timeout])
    fix b assume "new_add_mac_to_ipset_buffer e name eth_addr af timeout = Some b"
    then show ?thesis
      using new_add_mac_to_ipset_short [OF short, of e k eth_addr af timeout w] by simp
  qed
  show "\<exists>b. flush_ipset_buffer e name = Some b
         \<and> flush_ipset e k (Some name) w = send_buffer e k (Some b) w"
  proof (rule flush_ipset_buffer_effect [OF short, of e])
    fix b assume "flush_ipset_buffer e name = Some b"
    then show ?thesis using flush_ipset_short [OF short, of e k w] by simp
  qed
next
  assume "IPSET_MAXNAMELEN \<le> strlen name"
  then show "new_add_to_ipset e k (Some name) ipaddr af remove w
        = Returns (- 1) (w\<lparr>errno := ENAMETOOLONG\<rparr>)"
    by (simp add: new_add_to_ipset_def)
next
  assume "IPSET_MAXNAMELEN \<le> strlen name"
  then show "new_add_mac_to_ipset e k (Some name) eth_addr af timeout w
        = Returns (- 1) (w\<lparr>errno := ENAMETOOLONG\<rparr>)"
    by (simp add: new_add_mac_to_ipset_def)
next
  assume "IPSET_MAXNAMELEN \<le> strlen name"
  then show "flush_ipset e k (Some name) w = Returns (- 1) (w\<lparr>errno := ENAMETOOLONG\<rparr>)"
    by (simp add: flush_ipset_def)
qed

theorem name_length_check_witness:
  "strlen blocklist < IPSET_MAXNAMELEN
   \<and> (\<exists>b. flush_ipset_buffer LittleEndian blocklist = Some b
         \<and> flush_ipset LittleEndian kernel_accepts (Some blocklist) world0
             = send_buffer LittleEndian kernel_accepts (Some b) world0)
   \<and> IPSET_MAXNAMELEN \<le> strlen long_name
   \<and> flush_ipset LittleEndian kernel_accepts (Some long_name) world0
        = Returns (- 1) (world0\<lparr>errno := ENAMETOOLONG\<rparr>)
   \<and> new_add_to_ipset LittleEndian kernel_accepts (Some long_name) 0x010200C0 AF_INET 0 world0
        = Returns (- 1) (world0\<lparr>errno := ENAMETOOLONG\<rparr>)"
proof -
  have a: "strlen blocklist < IPSET_MAXNAMELEN"
    by (simp add: strlen_blocklist IPSET_MAXNAMELEN_def)
  have b: "IPSET_MAXNAMELEN \<le> strlen long_name"
    by (simp add: strlen_long_name IPSET_MAXNAMELEN_def)
  have nb: "\<not> strlen long_name < IPSET_MAXNAMELEN" using b by simp
  show ?thesis
    using a b
      name_length_check [of blocklist LittleEndian "0x010200C0" AF_INET 0 kernel_accepts world0
        "Ether_addr 0xAA 0xBB 0xCC 0xDD 0xEE 0xFF" 0]
      name_length_check [of long_name LittleEndian "0x010200C0" AF_INET 0 kernel_accepts world0
        "Ether_addr 0xAA 0xBB 0xCC 0xDD 0xEE 0xFF" 0]
    by (simp add: nb)
qed

subsection \<open>C6: the address family of a flush message\<close>

text \<open>
  C6. \<^verbatim>\<open>flush_ipset\<close> has no address-family parameter. For a set name that passes the
  check, the buffer it builds and sends has the byte \<^verbatim>\<open>AF_INET\<close> in \<^verbatim>\<open>nfgen_family\<close>
  (offset 16, the first byte after the 16-byte netlink header). For every set name, null
  or too long included, every datagram that a returning call of \<^verbatim>\<open>flush_ipset\<close> has
  written to the socket has \<^verbatim>\<open>AF_INET\<close> at that offset.
\<close>

theorem flush_family_is_ipv4:
  "(strlen name < IPSET_MAXNAMELEN \<longrightarrow>
      (\<exists>b. flush_ipset_buffer e name = Some b
         \<and> flush_ipset e k (Some name) w = send_buffer e k (Some b) w
         \<and> b ! 16 = word_of_int AF_INET))
   \<and> (flush_ipset e k setname w = Returns r w' \<longrightarrow>
      (\<forall>m \<in> set (drop (length (socket_writes w)) (socket_writes w')).
         m ! 16 = word_of_int AF_INET))"
proof (intro conjI impI)
  assume short: "strlen name < IPSET_MAXNAMELEN"
  show "\<exists>b. flush_ipset_buffer e name = Some b
         \<and> flush_ipset e k (Some name) w = send_buffer e k (Some b) w
         \<and> b ! 16 = word_of_int AF_INET"
  proof (rule flush_ipset_buffer_effect [OF short, of e])
    fix b assume "flush_ipset_buffer e name = Some b" "b ! 16 = word_of_int AF_INET"
    then show ?thesis using flush_ipset_short [OF short, of e k w] by simp
  qed
next
  assume ret: "flush_ipset e k setname w = Returns r w'"
  show "\<forall>m \<in> set (drop (length (socket_writes w)) (socket_writes w')).
         m ! 16 = word_of_int AF_INET"
  proof (cases setname)
    case None
    with ret have "w' = w\<lparr>errno := ENAMETOOLONG\<rparr>" by (simp add: flush_ipset_def)
    then show ?thesis by simp
  next
    case (Some name)
    show ?thesis
    proof (cases "strlen name < IPSET_MAXNAMELEN")
      case False
      with ret Some have "w' = w\<lparr>errno := ENAMETOOLONG\<rparr>" by (simp add: flush_ipset_def)
      then show ?thesis by simp
    next
      case True
      show ?thesis
      proof (rule flush_ipset_buffer_effect [OF True, of e])
        fix b assume b: "flush_ipset_buffer e name = Some b" "length b = BUFF_SZ"
          "unat (get_nlmsg_len e b) = 28 + name_span name" "b ! 16 = word_of_int AF_INET"
        from ret Some b(1) have "send_buffer e k (Some b) w = Returns r w'"
          using flush_ipset_short [OF True, of e k w] by simp
        then obtain n where "socket_writes w' =
            socket_writes w @ replicate (Suc n) (take (unat (get_nlmsg_len e b)) b)"
          using send_buffer_Returns by blast
        then have "set (drop (length (socket_writes w)) (socket_writes w')) =
            {take (28 + name_span name) b}"
          by (simp add: b(3) set_replicate_conv_if)
        moreover have "take (28 + name_span name) b ! 16 = b ! 16" by simp
        ultimately show ?thesis using b(4) by simp
      qed
    qed
  qed
qed

theorem flush_family_is_ipv4_witness:
  "strlen blocklist < IPSET_MAXNAMELEN
   \<and> (\<exists>b. flush_ipset_buffer LittleEndian blocklist = Some b
         \<and> b ! 16 = word_of_int AF_INET)
   \<and> (\<exists>r w'. flush_ipset LittleEndian kernel_accepts (Some blocklist) world0 = Returns r w'
         \<and> drop (length (socket_writes world0)) (socket_writes w') \<noteq> []
         \<and> (\<forall>m \<in> set (drop (length (socket_writes world0)) (socket_writes w')).
               m ! 16 = word_of_int AF_INET))"
proof -
  have a: "strlen blocklist < IPSET_MAXNAMELEN"
    by (simp add: strlen_blocklist IPSET_MAXNAMELEN_def)
  have first: "\<exists>b. flush_ipset_buffer LittleEndian blocklist = Some b
         \<and> b ! 16 = word_of_int AF_INET"
    using a flush_family_is_ipv4 [of blocklist LittleEndian kernel_accepts world0 None 0 world0]
    by blast
  have second: "\<exists>r w'. flush_ipset LittleEndian kernel_accepts (Some blocklist) world0 = Returns r w'
         \<and> drop (length (socket_writes world0)) (socket_writes w') \<noteq> []
         \<and> (\<forall>m \<in> set (drop (length (socket_writes world0)) (socket_writes w')).
               m ! 16 = word_of_int AF_INET)"
  proof (rule flush_ipset_buffer_effect [OF a, of LittleEndian])
    fix b assume b: "flush_ipset_buffer LittleEndian blocklist = Some b" "length b = BUFF_SZ"
      "unat (get_nlmsg_len LittleEndian b) = 28 + name_span blocklist"
    define w1 where "w1 = world0\<lparr>retries := 0, errno := 0,
      socket_writes := socket_writes world0 @ [take (unat (get_nlmsg_len LittleEndian b)) b]\<rparr>"
    have fits: "unat (get_nlmsg_len LittleEndian b) \<le> length b"
      using b(2,3) name_span_bounds(1) [OF a] by (simp add: BUFF_SZ_def)
    have acc: "sendto_result kernel_accepts (length (socket_writes world0)) = Sent 0"
      by (simp add: kernel_accepts_def)
    have ret: "flush_ipset LittleEndian kernel_accepts (Some blocklist) world0 = Returns 0 w1"
      using flush_ipset_short [OF a, of LittleEndian kernel_accepts world0]
        send_buffer_accepted [where k = kernel_accepts and w = world0 and e = LittleEndian
          and b = b and n = 0, OF acc fits]
      by (simp add: b(1) w1_def)
    have "\<forall>m \<in> set (drop (length (socket_writes world0)) (socket_writes w1)).
               m ! 16 = word_of_int AF_INET"
      using flush_family_is_ipv4 [of blocklist LittleEndian kernel_accepts world0
          "Some blocklist" 0 w1] ret
      by blast
    moreover have "drop (length (socket_writes world0)) (socket_writes w1) \<noteq> []"
      by (simp add: w1_def)
    ultimately show ?thesis using ret by blast
  qed
  show ?thesis using a first second by blast
qed

subsection \<open>C7: the hardware-address builder always adds\<close>

text \<open>
  C7. The last parameter of \<^verbatim>\<open>new_add_mac_to_ipset\<close> changes neither the buffer built nor
  the outcome of the call; for a set name that passes the check, \<^verbatim>\<open>nlmsg_type\<close> (offset 4)
  of the built message is \<^verbatim>\<open>IPSET_CMD_ADD | (NFNL_SUBSYS_IPSET << 8)\<close>. Through
  \<^verbatim>\<open>add_to_ipset\<close>, a value that is not a valid network address gives the same outcome
  whatever the flag.
\<close>

theorem mac_builder_always_add:
  "new_add_mac_to_ipset_buffer e name eth_addr af t1
     = new_add_mac_to_ipset_buffer e name eth_addr af t2
   \<and> new_add_mac_to_ipset e k setname eth_addr af t1 w
     = new_add_mac_to_ipset e k setname eth_addr af t2 w
   \<and> (strlen name < IPSET_MAXNAMELEN \<longrightarrow>
        (\<exists>b. new_add_mac_to_ipset_buffer e name eth_addr af t1 = Some b
           \<and> get_u16 e 4 b = IPSET_CMD_ADD OR push_bit 8 NFNL_SUBSYS_IPSET))
   \<and> (\<not> is_valid_ip p val \<longrightarrow>
        add_to_ipset p e k setname val t1 w = add_to_ipset p e k setname val t2 w)"
proof (intro conjI impI)
  have eq: "new_add_mac_to_ipset_buffer e nm eth_addr af t1
     = new_add_mac_to_ipset_buffer e nm eth_addr af t2" for nm
    by (simp add: new_add_mac_to_ipset_buffer_def)
  show "new_add_mac_to_ipset_buffer e name eth_addr af t1
     = new_add_mac_to_ipset_buffer e name eth_addr af t2"
    by (rule eq)
  show "new_add_mac_to_ipset e k setname eth_addr af t1 w
     = new_add_mac_to_ipset e k setname eth_addr af t2 w"
    by (cases setname) (simp_all add: new_add_mac_to_ipset_def eq)
next
  assume short: "strlen name < IPSET_MAXNAMELEN"
  show "\<exists>b. new_add_mac_to_ipset_buffer e name eth_addr af t1 = Some b
           \<and> get_u16 e 4 b = IPSET_CMD_ADD OR push_bit 8 NFNL_SUBSYS_IPSET"
  proof (rule new_add_mac_to_ipset_buffer_effect [OF short, of e eth_addr af t1])
    fix b assume "new_add_mac_to_ipset_buffer e name eth_addr af t1 = Some b"
      "get_u16 e 4 b = IPSET_CMD_ADD OR push_bit 8 NFNL_SUBSYS_IPSET"
    then show ?thesis by simp
  qed
next
  assume no_ip: "\<not> is_valid_ip p val"
  have eq: "new_add_mac_to_ipset e k setname a AF_INET t1 w
      = new_add_mac_to_ipset e k setname a AF_INET t2 w" for a
    by (cases setname) (simp_all add: new_add_mac_to_ipset_def new_add_mac_to_ipset_buffer_def)
  show "add_to_ipset p e k setname val t1 w = add_to_ipset p e k setname val t2 w"
    using no_ip by (cases "ether_aton p val") (simp_all add: add_to_ipset_def eq)
qed

theorem mac_builder_always_add_witness:
  "strlen blocklist < IPSET_MAXNAMELEN
   \<and> (\<exists>b. new_add_mac_to_ipset_buffer LittleEndian blocklist
             (Ether_addr 0xAA 0xBB 0xCC 0xDD 0xEE 0xFF) AF_INET 1 = Some b
           \<and> get_u16 LittleEndian 4 b = IPSET_CMD_ADD OR push_bit 8 NFNL_SUBSYS_IPSET)
   \<and> \<not> is_valid_ip (sample_parsers LittleEndian) ''aa:bb:cc:dd:ee:ff''
   \<and> add_to_ipset (sample_parsers LittleEndian) LittleEndian kernel_accepts (Some blocklist)
         ''aa:bb:cc:dd:ee:ff'' 1 world0
       = add_to_ipset (sample_parsers LittleEndian) LittleEndian kernel_accepts (Some blocklist)
         ''aa:bb:cc:dd:ee:ff'' 0 world0"
proof -
  have a: "strlen blocklist < IPSET_MAXNAMELEN"
    by (simp add: strlen_blocklist IPSET_MAXNAMELEN_def)
  have b: "\<not> is_valid_ip (sample_parsers LittleEndian) ''aa:bb:cc:dd:ee:ff''"
    by (simp add: sample_parsers_def)
  show ?thesis
    using a b mac_builder_always_add [of LittleEndian blocklist
        "Ether_addr 0xAA 0xBB 0xCC 0xDD 0xEE 0xFF" AF_INET 1 0 kernel_accepts "Some blocklist"
        world0 "sample_parsers LittleEndian" "''aa:bb:cc:dd:ee:ff''"]
    by blast
qed

subsection \<open>C10: the dispatcher always passes the IPv4 family\<close>

text \<open>
  C10. Whatever its arguments, \<^verbatim>\<open>add_to_ipset\<close> calls either builder with the address
  family \<^verbatim>\<open>AF_INET\<close>. For a set name that passes the check, the message the address
  builder then builds has \<^verbatim>\<open>AF_INET\<close> in \<^verbatim>\<open>nfgen_family\<close>, its address attribute has the
  type \<^verbatim>\<open>IPSET_ATTR_IPADDR_IPV4 | NLA_F_NET_BYTEORDER\<close>, never the IPv6 one, and a length of
  4 bytes of header plus 4 bytes of payload, the four bytes of the address, which end
  the message; the message of the hardware-address builder has \<^verbatim>\<open>AF_INET\<close> in
  \<^verbatim>\<open>nfgen_family\<close> as well.
\<close>

theorem add_to_ipset_always_ipv4:
  "(is_valid_ip p val \<and> inet_aton p val = Some addr \<longrightarrow>
      add_to_ipset p e k setname val flag w = new_add_to_ipset e k setname addr AF_INET flag w)
   \<and> (\<not> is_valid_ip p val \<and> is_valid_mac p val \<and> ether_aton p val = Some eth_addr \<longrightarrow>
      add_to_ipset p e k setname val flag w
        = new_add_mac_to_ipset e k setname eth_addr AF_INET flag w)
   \<and> (strlen name < IPSET_MAXNAMELEN \<longrightarrow>
      (\<exists>b. new_add_to_ipset_buffer e name addr AF_INET flag = Some b
         \<and> new_add_to_ipset e k (Some name) addr AF_INET flag w = send_buffer e k (Some b) w
         \<and> b ! 16 = word_of_int AF_INET
         \<and> get_u16 e (38 + name_span name) b = IPSET_ATTR_IPADDR_IPV4 OR NLA_F_NET_BYTEORDER
         \<and> get_u16 e (38 + name_span name) b \<noteq> IPSET_ATTR_IPADDR_IPV6 OR NLA_F_NET_BYTEORDER
         \<and> unat (get_u16 e (36 + name_span name) b) = 4 + INADDRSZ
         \<and> unat (get_nlmsg_len e b) = 40 + name_span name + INADDRSZ
         \<and> (\<forall>j < INADDRSZ. b ! (40 + name_span name + j) = u32_bytes e addr ! j))
    \<and> (\<exists>b. new_add_mac_to_ipset_buffer e name eth_addr AF_INET flag = Some b
         \<and> new_add_mac_to_ipset e k (Some name) eth_addr AF_INET flag w
             = send_buffer e k (Some b) w
         \<and> b ! 16 = word_of_int AF_INET))"
proof (intro conjI impI)
  assume "is_valid_ip p val \<and> inet_aton p val = Some addr"
  then show "add_to_ipset p e k setname val flag w
      = new_add_to_ipset e k setname addr AF_INET flag w"
    by (simp add: add_to_ipset_def)
next
  assume "\<not> is_valid_ip p val \<and> is_valid_mac p val \<and> ether_aton p val = Some eth_addr"
  then show "add_to_ipset p e k setname val flag w
      = new_add_mac_to_ipset e k setname eth_addr AF_INET flag w"
    by (simp add: add_to_ipset_def)
next
  assume short: "strlen name < IPSET_MAXNAMELEN"
  show "\<exists>b. new_add_to_ipset_buffer e name addr AF_INET flag = Some b
         \<and> new_add_to_ipset e k (Some name) addr AF_INET flag w = send_buffer e k (Some b) w
         \<and> b ! 16 = word_of_int AF_INET
         \<and> get_u16 e (38 + name_span name) b = IPSET_ATTR_IPADDR_IPV4 OR NLA_F_NET_BYTEORDER
         \<and> get_u16 e (38 + name_span name) b \<noteq> IPSET_ATTR_IPADDR_IPV6 OR NLA_F_NET_BYTEORDER
         \<and> unat (get_u16 e (36 + name_span name) b) = 4 + INADDRSZ
         \<and> unat (get_nlmsg_len e b) = 40 + name_span name + INADDRSZ
         \<and> (\<forall>j < INADDRSZ. b ! (40 + name_span name + j) = u32_bytes e addr ! j)"
  proof (rule new_add_to_ipset_buffer_effect [OF short, of e addr AF_INET flag])
    fix bo b
    assume run: "new_add_to_ipset_buffer e name addr AF_INET flag = Some b"
      and no: "unat (get_nlmsg_len e bo) = 44 + name_span name"
      and n: "get_nlmsg_len e b = get_nlmsg_len e bo"
      and fam: "b ! 16 = word_of_int AF_INET"
      and len: "get_u16 e (36 + name_span name) b = 8"
      and ty: "get_u16 e (38 + name_span name) b =
        (if AF_INET = AF_INET then IPSET_ATTR_IPADDR_IPV4 else IPSET_ATTR_IPADDR_IPV6)
          OR NLA_F_NET_BYTEORDER"
      and dat: "\<And>j. j < 4 \<Longrightarrow> b ! (40 + name_span name + j) = u32_bytes e addr ! j"
    have ne: "IPSET_ATTR_IPADDR_IPV4 OR NLA_F_NET_BYTEORDER
        \<noteq> IPSET_ATTR_IPADDR_IPV6 OR NLA_F_NET_BYTEORDER"
      by (simp add: IPSET_ATTR_IPADDR_IPV4_def IPSET_ATTR_IPADDR_IPV6_def
          NLA_F_NET_BYTEORDER_def)
    show ?thesis
      using run new_add_to_ipset_short [OF short, of e k addr AF_INET flag w] fam ty ne
        len no n dat
      by (simp add: INADDRSZ_def)
  qed
  show "\<exists>b. new_add_mac_to_ipset_buffer e name eth_addr AF_INET flag = Some b
         \<and> new_add_mac_to_ipset e k (Some name) eth_addr AF_INET flag w
             = send_buffer e k (Some b) w
         \<and> b ! 16 = word_of_int AF_INET"
  proof (rule new_add_mac_to_ipset_buffer_effect [OF short, of e eth_addr AF_INET flag])
    fix b
    assume "new_add_mac_to_ipset_buffer e name eth_addr AF_INET flag = Some b"
      "b ! 16 = word_of_int AF_INET"
    then show ?thesis
      using new_add_mac_to_ipset_short [OF short, of e k eth_addr AF_INET flag w] by simp
  qed
qed

theorem add_to_ipset_always_ipv4_witness:
  "is_valid_ip (sample_parsers LittleEndian) ''192.0.2.1''
   \<and> inet_aton (sample_parsers LittleEndian) ''192.0.2.1'' = Some 0x010200C0
   \<and> add_to_ipset (sample_parsers LittleEndian) LittleEndian kernel_accepts (Some blocklist)
        ''192.0.2.1'' 0 world0
      = new_add_to_ipset LittleEndian kernel_accepts (Some blocklist) 0x010200C0 AF_INET 0 world0
   \<and> \<not> is_valid_ip (sample_parsers LittleEndian) ''aa:bb:cc:dd:ee:ff''
   \<and> is_valid_mac (sample_parsers LittleEndian) ''aa:bb:cc:dd:ee:ff''
   \<and> ether_aton (sample_parsers LittleEndian) ''aa:bb:cc:dd:ee:ff''
        = Some (Ether_addr 0xAA 0xBB 0xCC 0xDD 0xEE 0xFF)
   \<and> add_to_ipset (sample_parsers LittleEndian) LittleEndian kernel_accepts (Some blocklist)
        ''aa:bb:cc:dd:ee:ff'' 0 world0
      = new_add_mac_to_ipset LittleEndian kernel_accepts (Some blocklist)
          (Ether_addr 0xAA 0xBB 0xCC 0xDD 0xEE 0xFF) AF_INET 0 world0
   \<and> strlen blocklist < IPSET_MAXNAMELEN
   \<and> (\<exists>b. new_add_to_ipset_buffer LittleEndian blocklist 0x010200C0 AF_INET 0 = Some b
         \<and> b ! 16 = word_of_int AF_INET
         \<and> get_u16 LittleEndian (38 + name_span blocklist) b
             = IPSET_ATTR_IPADDR_IPV4 OR NLA_F_NET_BYTEORDER
         \<and> unat (get_u16 LittleEndian (36 + name_span blocklist) b) = 4 + INADDRSZ)"
proof -
  have a: "is_valid_ip (sample_parsers LittleEndian) ''192.0.2.1''
      \<and> inet_aton (sample_parsers LittleEndian) ''192.0.2.1'' = Some 0x010200C0"
    by (simp add: sample_parsers_def bytes_u32_def)
  have b: "\<not> is_valid_ip (sample_parsers LittleEndian) ''aa:bb:cc:dd:ee:ff''
      \<and> is_valid_mac (sample_parsers LittleEndian) ''aa:bb:cc:dd:ee:ff''
      \<and> ether_aton (sample_parsers LittleEndian) ''aa:bb:cc:dd:ee:ff''
        = Some (Ether_addr 0xAA 0xBB 0xCC 0xDD 0xEE 0xFF)"
    by (simp add: sample_parsers_def)
  have c: "strlen blocklist < IPSET_MAXNAMELEN"
    by (simp add: strlen_blocklist IPSET_MAXNAMELEN_def)
  note t1 = add_to_ipset_always_ipv4 [of "sample_parsers LittleEndian" "''192.0.2.1''"
      "0x010200C0" LittleEndian kernel_accepts "Some blocklist" 0 world0
      "Ether_addr 0xAA 0xBB 0xCC 0xDD 0xEE 0xFF" blocklist]
  note t2 = add_to_ipset_always_ipv4 [of "sample_parsers LittleEndian" "''aa:bb:cc:dd:ee:ff''"
      "0x010200C0" LittleEndian kernel_accepts "Some blocklist" 0 world0
      "Ether_addr 0xAA 0xBB 0xCC 0xDD 0xEE 0xFF" blocklist]
  have p1: "add_to_ipset (sample_parsers LittleEndian) LittleEndian kernel_accepts (Some blocklist)
        ''192.0.2.1'' 0 world0
      = new_add_to_ipset LittleEndian kernel_accepts (Some blocklist) 0x010200C0 AF_INET 0 world0"
    using t1 a by blast
  have p2: "add_to_ipset (sample_parsers LittleEndian) LittleEndian kernel_accepts (Some blocklist)
        ''aa:bb:cc:dd:ee:ff'' 0 world0
      = new_add_mac_to_ipset LittleEndian kernel_accepts (Some blocklist)
          (Ether_addr 0xAA 0xBB 0xCC 0xDD 0xEE 0xFF) AF_INET 0 world0"
    using t2 b by blast
  have p3: "\<exists>b. new_add_to_ipset_buffer LittleEndian blocklist 0x010200C0 AF_INET 0 = Some b
         \<and> b ! 16 = word_of_int AF_INET
         \<and> get_u16 LittleEndian (38 + name_span blocklist) b
             = IPSET_ATTR_IPADDR_IPV4 OR NLA_F_NET_BYTEORDER
         \<and> unat (get_u16 LittleEndian (36 + name_span blocklist) b) = 4 + INADDRSZ"
    using t1 c by blast
  show ?thesis using a b c p1 p2 p3 by blast
qed

subsection \<open>C4: a null set name\<close>

text \<open>
  C4 holds for \<^verbatim>\<open>flush_ipset\<close>, which tests the pointer, and fails for \<^verbatim>\<open>add_to_ipset\<close>:
  with a valid address or hardware address and a null set name, the builder it calls
  passes the null pointer to \<^verbatim>\<open>strlen\<close>.
\<close>

theorem add_to_ipset_null_setname:
  "add_to_ipset (sample_parsers LittleEndian) LittleEndian kernel_accepts None ''192.0.2.1'' 0 world0
     = Faults NullDereference
   \<and> add_to_ipset (sample_parsers LittleEndian) LittleEndian kernel_accepts None
       ''aa:bb:cc:dd:ee:ff'' 0 world0
     = Faults NullDereference
   \<and> flush_ipset LittleEndian kernel_accepts None world0
     = Returns (- 1) (world0\<lparr>errno := ENAMETOOLONG\<rparr>)"
  by (simp add: add_to_ipset_def sample_parsers_def new_add_to_ipset_def
      new_add_mac_to_ipset_def flush_ipset_def)

end
